theory Spec2Isabelle
  imports Main
begin

section \<open>Data model\<close>

text \<open>
  The exceptions the module can raise: an out-of-range list index, \<open>int\<close> of a
  non-numeric cell or a negative combination size, and \<open>%\<close> or \<open>//\<close> by zero.
\<close>

datatype error = IndexError | ValueError | ZeroDivisionError

text \<open>
  A grid cell is the unknown marker \<open>'_'\<close>, an integer hint, or one of the two markers
  \<open>'T'\<close> (mine) and \<open>'G'\<close> (safe) that the decoder writes.
\<close>

datatype cell = Unknown | Hint int | Mine | Safe

text \<open>
  A grid is a Python list of row lists. The outer list holds references to the row
  objects; the rows live in a store, so that two lists holding the same reference share
  the row. Positions, sizes, variables and literals are Python integers.
\<close>

type_synonym addr = nat
type_synonym store = "addr \<Rightarrow> cell list"
type_synonym grid = "addr list"
type_synonym pos = "int \<times> int"
type_synonym clause = "int list"

section \<open>Python primitives\<close>

definition bind_res :: "error + 'a \<Rightarrow> ('a \<Rightarrow> error + 'b) \<Rightarrow> error + 'b" where
  "bind_res m f = (case m of Inl e \<Rightarrow> Inl e | Inr x \<Rightarrow> f x)"

text \<open>
  The offset that a subscript \<open>i\<close> selects in a list of \<open>len\<close> elements: the subscripts
  \<open>- len, \<dots>, - 1\<close> stand for the offsets \<open>0, \<dots>, len - 1\<close>, as the subscripts
  \<open>0, \<dots>, len - 1\<close> do, and every other subscript raises IndexError.
\<close>

definition py_offset :: "nat \<Rightarrow> int \<Rightarrow> error + nat" where
  "py_offset len i =
     (if i < - int len \<or> int len \<le> i then Inl IndexError
      else if i < 0 then Inr (nat (i + int len))
      else Inr (nat i))"

text \<open>\<open>xs[i]\<close>, read.\<close>

definition py_index :: "'a list \<Rightarrow> int \<Rightarrow> error + 'a" where
  "py_index xs i = bind_res (py_offset (length xs) i) (\<lambda>k. Inr (xs ! k))"

text \<open>\<open>range(a, b)\<close>: the integers from \<open>a\<close> up to \<open>b - 1\<close>, none when \<open>b \<le> a\<close>.\<close>

definition py_range :: "int \<Rightarrow> int \<Rightarrow> int list" where
  "py_range a b = [a..b - 1]"

text \<open>
  A loop that appends one result per element, and stops at the first element that raises.
\<close>

fun map_res :: "('a \<Rightarrow> error + 'b) \<Rightarrow> 'a list \<Rightarrow> error + 'b list" where
  "map_res f [] = Inr []"
| "map_res f (x # xs) =
     bind_res (f x) (\<lambda>y. bind_res (map_res f xs) (\<lambda>ys. Inr (y # ys)))"

text \<open>\<open>int(x)\<close> of a cell: the hint itself, and ValueError on a marker string.\<close>

fun py_int :: "cell \<Rightarrow> error + int" where
  "py_int (Hint h) = Inr h"
| "py_int Unknown = Inl ValueError"
| "py_int Mine = Inl ValueError"
| "py_int Safe = Inl ValueError"

text \<open>
  \<open>itertools.combinations(pool, r)\<close>, as the library documents it: the \<open>r\<close>-length
  subsequences of \<open>pool\<close>, in lexicographic order of their positions in \<open>pool\<close>; none
  when \<open>r\<close> exceeds the length of \<open>pool\<close>; ValueError when \<open>r\<close> is negative.
\<close>

fun combinations :: "'a list \<Rightarrow> nat \<Rightarrow> 'a list list" where
  "combinations xs 0 = [[]]"
| "combinations [] (Suc k) = []"
| "combinations (x # xs) (Suc k) =
     map ((#) x) (combinations xs k) @ combinations xs (Suc k)"

definition py_combinations :: "'a list \<Rightarrow> int \<Rightarrow> error + 'a list list" where
  "py_combinations pool r =
     (if r < 0 then Inl ValueError else Inr (combinations pool (nat r)))"

text \<open>\<open>grid[r][c]\<close>, read through the store.\<close>

definition grid_get :: "store \<Rightarrow> grid \<Rightarrow> int \<Rightarrow> int \<Rightarrow> error + cell" where
  "grid_get st g r c = bind_res (py_index g r) (\<lambda>a. py_index (st a) c)"

section \<open>Coordinate mapping\<close>

fun convert_to_flatten :: "pos \<Rightarrow> int \<times> int \<Rightarrow> int" where
  "convert_to_flatten (r, c) (num_r, num_c) = r * num_c + c + 1"

fun convert_to_2D :: "int \<Rightarrow> int \<times> int \<Rightarrow> error + pos" where
  "convert_to_2D flat (num_r, num_c) =
     (if num_c = 0 then Inl ZeroDivisionError
      else let c = (flat - 1) mod num_c; r = (flat - 1) div num_c in Inr (r, c))"

section \<open>Neighbourhood\<close>

fun generate_around :: "pos \<Rightarrow> int \<times> int \<Rightarrow> pos list" where
  "generate_around (r, c) (num_r, num_c) =
     concat (map (\<lambda>i.
       concat (map (\<lambda>j.
         let new_r = r + i; new_c = c + j
         in if 0 \<le> new_r \<and> new_r < num_r \<and> 0 \<le> new_c \<and> new_c < num_c
            then [(new_r, new_c)] else [])
         (py_range (- 1) 2)))
       (py_range (- 1) 2))"


fun is_valid :: "store \<Rightarrow> pos \<Rightarrow> grid \<Rightarrow> int \<times> int \<Rightarrow> error + bool" where
  "is_valid st (r, c) g (num_r, num_c) =
     (if 0 \<le> r \<and> r < num_r \<and> 0 \<le> c \<and> c < num_c
      then bind_res (grid_get st g r c) (\<lambda>cell. Inr (cell = Unknown))
      else Inr False)"

section \<open>Combinations\<close>

definition list_combination :: "int \<Rightarrow> int \<Rightarrow> error + int list list" where
  "list_combination n k =
     (if k > n then Inr []
      else py_combinations (py_range 1 (n + 1)) k)"

section \<open>Clause synthesis\<close>

text \<open>
  The first loop of \<open>generate_CNF\<close>: the variables of the neighbours that are in
  bounds and unknown, in the order \<open>generate_around\<close> yields them.
\<close>

fun collect_cells :: "store \<Rightarrow> pos list \<Rightarrow> grid \<Rightarrow> int \<times> int \<Rightarrow> error + int list" where
  "collect_cells st [] g sz = Inr []"
| "collect_cells st (new_pos # ps) g sz =
     bind_res (is_valid st new_pos g sz) (\<lambda>v.
     bind_res (collect_cells st ps g sz) (\<lambda>list_cells.
       Inr (if v then convert_to_flatten new_pos sz # list_cells else list_cells)))"

text \<open>The two clause loops: one clause per combination, one literal per index.\<close>

definition upper_clauses :: "int list \<Rightarrow> int list list \<Rightarrow> error + clause list" where
  "upper_clauses list_cells first_comb =
     map_res (\<lambda>comb.
       map_res (\<lambda>index. bind_res (py_index list_cells (index - 1)) (\<lambda>v. Inr (- v))) comb)
       first_comb"

definition lower_clauses :: "int list \<Rightarrow> int list list \<Rightarrow> error + clause list" where
  "lower_clauses list_cells second_comb =
     map_res (\<lambda>comb.
       map_res (\<lambda>index. py_index list_cells (index - 1)) comb)
       second_comb"

fun generate_CNF :: "store \<Rightarrow> pos \<Rightarrow> grid \<Rightarrow> int \<times> int \<Rightarrow> error + clause list" where
  "generate_CNF st (r, c) g sz =
     bind_res (grid_get st g r c) (\<lambda>cell.
       if cell = Unknown then Inr []
       else
         bind_res (collect_cells st (generate_around (r, c) sz) g sz) (\<lambda>list_cells.
         bind_res (bind_res (grid_get st g r c) py_int) (\<lambda>number.
         let num_valid = int (length list_cells) in
         bind_res (list_combination num_valid (number + 1)) (\<lambda>first_comb.
         bind_res (upper_clauses list_cells first_comb) (\<lambda>upper.
         bind_res (list_combination num_valid (num_valid - number + 1)) (\<lambda>second_comb.
         bind_res (lower_clauses list_cells second_comb) (\<lambda>lower.
           Inr (upper @ lower))))))))"

section \<open>Formula assembly and the solver hand-off\<close>

text \<open>The positions of \<open>for r in range(num_r) for c in range(num_c)\<close>.\<close>

fun positions :: "int \<times> int \<Rightarrow> pos list" where
  "positions (num_r, num_c) =
     concat (map (\<lambda>r. map (\<lambda>c. (r, c)) (py_range 0 num_c)) (py_range 0 num_r))"

text \<open>
  The part of \<open>solve_by_pysat\<close> that builds the formula: the comprehension collects the
  clause list of every cell, then \<open>cnf.extend\<close> appends each list to the clauses of an
  initially empty formula.
\<close>

definition assemble_cnf :: "store \<Rightarrow> grid \<Rightarrow> int \<times> int \<Rightarrow> error + clause list" where
  "assemble_cnf st g sz =
     bind_res (map_res (\<lambda>p. generate_CNF st p g sz) (positions sz)) (\<lambda>clauses.
       Inr (fold (\<lambda>clause cnf. cnf @ clause) clauses []))"

text \<open>
  The SAT solver is a library outside the repository; it is a parameter that returns a
  model or \<open>None\<close>.
\<close>

definition solve_by_pysat ::
  "(clause list \<Rightarrow> int list option) \<Rightarrow> store \<Rightarrow> grid \<Rightarrow> int \<times> int \<Rightarrow> error + int list option" where
  "solve_by_pysat solver st g sz =
     bind_res (assemble_cnf st g sz) (\<lambda>cnf. Inr (solver cnf))"

section \<open>Decoding\<close>

text \<open>\<open>grid[r][c] = v\<close>: the row object is updated in place, in the store.\<close>

definition grid_set :: "store \<Rightarrow> grid \<Rightarrow> int \<Rightarrow> int \<Rightarrow> cell \<Rightarrow> error + store" where
  "grid_set st g r c v =
     bind_res (py_index g r) (\<lambda>a.
       bind_res (py_offset (length (st a)) c) (\<lambda>k.
         Inr (st(a := (st a)[k := v]))))"

text \<open>
  The loops of \<open>ouput_for_pysat\<close> return the store as they leave it, together with the
  exception that stopped them, if any.
\<close>

fun ouput_cols ::
  "int list \<Rightarrow> grid \<Rightarrow> int \<Rightarrow> int \<Rightarrow> int list \<Rightarrow> store \<Rightarrow> (error + unit) \<times> store" where
  "ouput_cols list_result output num_c r [] st = (Inr (), st)"
| "ouput_cols list_result output num_c r (c # cs) st =
     (case grid_get st output r c of
        Inl e \<Rightarrow> (Inl e, st)
      | Inr cell \<Rightarrow>
          if cell \<noteq> Unknown then ouput_cols list_result output num_c r cs st
          else
            let index = r * num_c + c in
            (case (if index < int (length list_result)
                   then bind_res (py_index list_result index) (\<lambda>v. Inr (v > 0))
                   else Inr False) of
               Inl e \<Rightarrow> (Inl e, st)
             | Inr mine \<Rightarrow>
                 (case grid_set st output r c (if mine then Mine else Safe) of
                    Inl e \<Rightarrow> (Inl e, st)
                  | Inr st' \<Rightarrow> ouput_cols list_result output num_c r cs st')))"

fun ouput_rows ::
  "int list \<Rightarrow> grid \<Rightarrow> int \<Rightarrow> int list \<Rightarrow> store \<Rightarrow> (error + unit) \<times> store" where
  "ouput_rows list_result output num_c [] st = (Inr (), st)"
| "ouput_rows list_result output num_c (r # rs) st =
     (case ouput_cols list_result output num_c r (py_range 0 num_c) st of
        (Inl e, st') \<Rightarrow> (Inl e, st')
      | (Inr u, st') \<Rightarrow> ouput_rows list_result output num_c rs st')"

text \<open>
  \<open>grid.copy()\<close> is a shallow copy: a new outer list holding the same row references.
  The outer lists are never written, so the new list is the same value.
\<close>

fun ouput_for_pysat ::
  "int list \<Rightarrow> grid \<Rightarrow> int \<times> int \<Rightarrow> store \<Rightarrow> (error + grid) \<times> store" where
  "ouput_for_pysat list_result g (num_r, num_c) st =
     (let output = g in
      case ouput_rows list_result output num_c (py_range 0 num_r) st of
        (Inl e, st') \<Rightarrow> (Inl e, st')
      | (Inr u, st') \<Rightarrow> (Inr output, st'))"

fun Pysat_Solution ::
  "(clause list \<Rightarrow> int list option) \<Rightarrow> grid \<Rightarrow> int \<times> int \<Rightarrow> store
     \<Rightarrow> (error + grid option) \<times> store" where
  "Pysat_Solution solver g sz st =
     (case solve_by_pysat solver st g sz of
        Inl e \<Rightarrow> (Inl e, st)
      | Inr None \<Rightarrow> (Inr None, st)
      | Inr (Some result) \<Rightarrow>
          (case ouput_for_pysat result g sz st of
             (Inl e, st') \<Rightarrow> (Inl e, st')
           | (Inr out, st') \<Rightarrow> (Inr (Some out), st')))"

text \<open>
  What the body of the inner loop leaves in the cell at \<open>(r, c)\<close>, as a function of what
  the cell held, and a row after the loop has visited its first \<open>num_c\<close> cells once each.
\<close>

definition decoded :: "int list \<Rightarrow> int \<Rightarrow> int \<Rightarrow> int \<Rightarrow> cell \<Rightarrow> cell" where
  "decoded list_result num_c r c cell =
     (if cell \<noteq> Unknown then cell
      else if r * num_c + c < int (length list_result) \<and> list_result ! nat (r * num_c + c) > 0
           then Mine else Safe)"

definition decoded_row :: "int list \<Rightarrow> int \<Rightarrow> int \<Rightarrow> cell list \<Rightarrow> cell list" where
  "decoded_row list_result num_c r row =
     map (\<lambda>k. if int k < num_c then decoded list_result num_c r (int k) (row ! k) else row ! k)
       [0..<length row]"

text \<open>
  The stores that the writes of the decoder can lead to: no list changes its length, and
  a cell that changes held the unknown marker and holds \<open>'T'\<close> or \<open>'G'\<close>.
\<close>

definition only_marks :: "store \<Rightarrow> store \<Rightarrow> bool" where
  "only_marks st st' \<longleftrightarrow>
     (\<forall>a. length (st' a) = length (st a)
        \<and> (\<forall>k < length (st a).
              st' a ! k = st a ! k
            \<or> (st a ! k = Unknown \<and> (st' a ! k = Mine \<or> st' a ! k = Safe))))"

section \<open>Reading grids and formulas\<close>

text \<open>The cells of a grid, row by row, as the store holds them.\<close>

definition cells :: "store \<Rightarrow> grid \<Rightarrow> cell list list" where
  "cells st g = map st g"

text \<open>
  A grid of the given size: \<open>num_r\<close> rows of \<open>num_c\<close> cells each, every row its own
  object.
\<close>

fun grid_of_size :: "store \<Rightarrow> grid \<Rightarrow> int \<times> int \<Rightarrow> bool" where
  "grid_of_size st g (num_r, num_c) =
     (int (length g) = num_r \<and> distinct g \<and> list_all (\<lambda>a. int (length (st a)) = num_c) g)"

text \<open>
  Truth of a formula under an assignment of the variables: a positive literal asserts
  its variable, a negative one denies it; a clause is a disjunction, a formula a
  conjunction.
\<close>

definition lit_true :: "(int \<Rightarrow> bool) \<Rightarrow> int \<Rightarrow> bool" where
  "lit_true \<sigma> l = (if 0 < l then \<sigma> l else \<not> \<sigma> (- l))"

definition clause_sat :: "(int \<Rightarrow> bool) \<Rightarrow> clause \<Rightarrow> bool" where
  "clause_sat \<sigma> cl = list_ex (lit_true \<sigma>) cl"

definition cnf_sat :: "(int \<Rightarrow> bool) \<Rightarrow> clause list \<Rightarrow> bool" where
  "cnf_sat \<sigma> cls = list_all (clause_sat \<sigma>) cls"


text \<open>Python's order on tuples of integers: lexicographic, a proper prefix first.\<close>

fun lex_less :: "int list \<Rightarrow> int list \<Rightarrow> bool" where
  "lex_less [] [] = False"
| "lex_less [] (y # ys) = True"
| "lex_less (x # xs) [] = False"
| "lex_less (x # xs) (y # ys) = (x < y \<or> (x = y \<and> lex_less xs ys))"

section \<open>Sample grids\<close>

text \<open>
  The 2 x 2 grid \<open>[[1, '_'], ['_', 2]]\<close>, its rows the objects 0 and 1 of the store, the
  1 x 1 grids \<open>[[2]]\<close> and \<open>[['_']]\<close>, their row the object 0, and a store whose object 0
  is the row \<open>['_', 1]\<close>, for the grid that holds this one row twice.
\<close>

definition grid_a :: store where
  "grid_a = (\<lambda>_. [])(0 := [Hint 1, Unknown], 1 := [Unknown, Hint 2])"

definition grid_b :: store where
  "grid_b = (\<lambda>_. [])(0 := [Hint 2])"

definition grid_c :: store where
  "grid_c = (\<lambda>_. [])(0 := [Unknown])"


section \<open>Properties of the coordinate mapping\<close>

text \<open>
  C2. On a grid with at least one row and one column, \<open>convert_to_2D\<close> undoes
  \<open>convert_to_flatten\<close> on every in-bounds position, and \<open>convert_to_flatten\<close> undoes
  \<open>convert_to_2D\<close> on every variable from 1 to \<open>rows * cols\<close>; neither conversion
  raises there.
\<close>

theorem convert_roundtrip:
  assumes "0 < rows" and "0 < cols"
  shows "(0 \<le> r \<and> r < rows \<and> 0 \<le> c \<and> c < cols \<longrightarrow>
            convert_to_2D (convert_to_flatten (r, c) (rows, cols)) (rows, cols) = Inr (r, c))
       \<and> (1 \<le> v \<and> v \<le> rows * cols \<longrightarrow>
            (\<exists>p. convert_to_2D v (rows, cols) = Inr p
               \<and> convert_to_flatten p (rows, cols) = v))"
proof (intro conjI impI)
  assume b: "0 \<le> r \<and> r < rows \<and> 0 \<le> c \<and> c < cols"
  then have "(r * cols + c) div cols = r" and "(r * cols + c) mod cols = c"
    by simp_all
  with assms show "convert_to_2D (convert_to_flatten (r, c) (rows, cols)) (rows, cols) = Inr (r, c)"
    by simp
next
  assume "1 \<le> v \<and> v \<le> rows * cols"
  have "(v - 1) div cols * cols + (v - 1) mod cols + 1 = v"
    by simp
  with assms show "\<exists>p. convert_to_2D v (rows, cols) = Inr p \<and> convert_to_flatten p (rows, cols) = v"
    by (simp add: Let_def)
qed

theorem convert_roundtrip_witness:
  "(0::int) < 3 \<and> (0::int) < 4
   \<and> convert_to_2D (convert_to_flatten (2, 3) (3, 4)) (3, 4) = Inr (2, 3)
   \<and> (\<exists>p. convert_to_2D 12 (3, 4) = Inr p \<and> convert_to_flatten p (3, 4) = 12)"
  using convert_roundtrip [of 3 4 2 3 12] by simp

section \<open>Properties of the neighbourhood\<close>

lemma py_range_m1_2: "py_range (- 1) 2 = [- 1, 0, 1]"
  by code_simp

lemma generate_around_filter:
  "generate_around (r, c) (rows, cols) =
     filter (\<lambda>(a, b). 0 \<le> a \<and> a < rows \<and> 0 \<le> b \<and> b < cols)
       (concat (map (\<lambda>i. map (\<lambda>j. (r + i, c + j)) (py_range (- 1) 2)) (py_range (- 1) 2)))"
proof -
  have inner: "concat (map (\<lambda>j. let new_r = r + i; new_c = c + j
         in if 0 \<le> new_r \<and> new_r < rows \<and> 0 \<le> new_c \<and> new_c < cols
            then [(new_r, new_c)] else []) js)
     = filter (\<lambda>(a, b). 0 \<le> a \<and> a < rows \<and> 0 \<le> b \<and> b < cols) (map (\<lambda>j. (r + i, c + j)) js)"
    for i js
    by (induction js) (simp_all add: Let_def)
  show ?thesis
    by (simp only: generate_around.simps inner filter_concat map_map comp_def)
qed

lemma offsets_nine:
  "concat (map (\<lambda>i. map (\<lambda>j. (r + i, c + j)) (py_range (- 1) 2)) (py_range (- 1) 2)) =
       [(r - 1, c - 1), (r - 1, c), (r - 1, c + 1),
        (r, c - 1), (r, c), (r, c + 1),
        (r + 1, c - 1), (r + 1, c), (r + 1, c + 1 :: int)]"
  by (simp add: py_range_m1_2)

lemma generate_around_list:
  "generate_around (r, c) (rows, cols) =
     filter (\<lambda>(a, b). 0 \<le> a \<and> a < rows \<and> 0 \<le> b \<and> b < cols)
       [(r - 1, c - 1), (r - 1, c), (r - 1, c + 1),
        (r, c - 1), (r, c), (r, c + 1),
        (r + 1, c - 1), (r + 1, c), (r + 1, c + 1)]"
  by (simp only: generate_around_filter offsets_nine)

lemma generate_around_bounds:
  "(a, b) \<in> set (generate_around (r, c) (rows, cols)) \<Longrightarrow>
     0 \<le> a \<and> a < rows \<and> 0 \<le> b \<and> b < cols"
  by (simp only: generate_around_filter set_filter) simp

lemma generate_around_self:
  "0 \<le> r \<and> r < rows \<and> 0 \<le> c \<and> c < cols
     \<Longrightarrow> (r, c) \<in> set (generate_around (r, c) (rows, cols))"
  by (simp only: generate_around_list set_filter) simp

lemma offsets_set:
  "{x \<in> (\<Union>i\<in>S. (\<lambda>j. (r + i, c + j)) ` S). case x of (a, b) \<Rightarrow> P a b}
     = {(r + i, c + j) | i j. i \<in> S \<and> j \<in> S \<and> P (r + i) (c + j)}"
  by auto

lemma generate_around_set:
  "set (generate_around (r, c) (rows, cols)) =
     {(r + i, c + j) | i j. i \<in> {- 1, 0, 1} \<and> j \<in> {- 1, 0, 1}
        \<and> 0 \<le> r + i \<and> r + i < rows \<and> 0 \<le> c + j \<and> c + j < cols}"
proof -
  have s: "set (py_range (- 1) 2) = {- 1, 0, 1}"
    by (simp add: py_range_m1_2)
  have "set (generate_around (r, c) (rows, cols)) =
      {x \<in> (\<Union>i\<in>{- 1, 0, 1}. (\<lambda>j. (r + i, c + j)) ` {- 1, 0, 1}).
         case x of (a, b) \<Rightarrow> 0 \<le> a \<and> a < rows \<and> 0 \<le> b \<and> b < cols}"
    by (simp only: generate_around_filter set_filter set_concat set_map s image_image)
  also have "\<dots> = {(r + i, c + j) | i j. i \<in> {- 1, 0, 1} \<and> j \<in> {- 1, 0, 1}
          \<and> 0 \<le> r + i \<and> r + i < rows \<and> 0 \<le> c + j \<and> c + j < cols}"
    by (rule offsets_set)
  finally show ?thesis .
qed

text \<open>
  C7. \<open>generate_around\<close> yields the nine offset positions around \<open>p\<close>, scanned row by
  row, keeping exactly those inside the grid; so every yielded position is in bounds,
  and \<open>p\<close> itself is yielded whenever it is in bounds.
\<close>

theorem generate_around_spec:
  "generate_around (r, c) (rows, cols) =
     filter (\<lambda>(a, b). 0 \<le> a \<and> a < rows \<and> 0 \<le> b \<and> b < cols)
       [(r - 1, c - 1), (r - 1, c), (r - 1, c + 1),
        (r, c - 1), (r, c), (r, c + 1),
        (r + 1, c - 1), (r + 1, c), (r + 1, c + 1)]
   \<and> set (generate_around (r, c) (rows, cols)) =
       {(r + i, c + j) | i j. i \<in> {- 1, 0, 1} \<and> j \<in> {- 1, 0, 1}
          \<and> 0 \<le> r + i \<and> r + i < rows \<and> 0 \<le> c + j \<and> c + j < cols}
   \<and> (\<forall>(a, b) \<in> set (generate_around (r, c) (rows, cols)).
          0 \<le> a \<and> a < rows \<and> 0 \<le> b \<and> b < cols)
   \<and> (0 \<le> r \<and> r < rows \<and> 0 \<le> c \<and> c < cols
        \<longrightarrow> (r, c) \<in> set (generate_around (r, c) (rows, cols)))"
proof (intro conjI)
  show "generate_around (r, c) (rows, cols) =
     filter (\<lambda>(a, b). 0 \<le> a \<and> a < rows \<and> 0 \<le> b \<and> b < cols)
       [(r - 1, c - 1), (r - 1, c), (r - 1, c + 1),
        (r, c - 1), (r, c), (r, c + 1),
        (r + 1, c - 1), (r + 1, c), (r + 1, c + 1)]"
    by (rule generate_around_list)
  show "set (generate_around (r, c) (rows, cols)) =
       {(r + i, c + j) | i j. i \<in> {- 1, 0, 1} \<and> j \<in> {- 1, 0, 1}
          \<and> 0 \<le> r + i \<and> r + i < rows \<and> 0 \<le> c + j \<and> c + j < cols}"
    by (rule generate_around_set)
  show "\<forall>(a, b) \<in> set (generate_around (r, c) (rows, cols)).
          0 \<le> a \<and> a < rows \<and> 0 \<le> b \<and> b < cols"
    using generate_around_bounds by blast
  show "0 \<le> r \<and> r < rows \<and> 0 \<le> c \<and> c < cols
        \<longrightarrow> (r, c) \<in> set (generate_around (r, c) (rows, cols))"
    using generate_around_self by blast
qed

theorem generate_around_spec_witness:
  "generate_around (0, 0) (2, 3) = [(0, 0), (0, 1), (1, 0), (1, 1)]
   \<and> set (generate_around (0, 0) (2, 3)) = {(0, 0), (0, 1), (1, 0), (1, 1)}
   \<and> (0, 0) \<in> set (generate_around (0, 0) (2, 3))"
  using generate_around_spec [of 0 0 2 3] by simp

section \<open>Properties of the combinations\<close>

lemma combinations_length: "length (combinations xs k) = length xs choose k"
  by (induction xs k rule: combinations.induct) simp_all

lemma combinations_too_long: "length xs < k \<Longrightarrow> combinations xs k = []"
  by (metis binomial_eq_0 combinations_length length_0_conv)

lemma combinations_map: "combinations (map f xs) k = map (map f) (combinations xs k)"
  by (induction xs k rule: combinations.induct) simp_all

lemma combinations_elem:
  "ys \<in> set (combinations xs k) \<Longrightarrow> set ys \<subseteq> set xs \<and> length ys = k"
proof (induction xs k arbitrary: ys rule: combinations.induct)
  case (3 x xs k)
  from "3.prems" consider zs where "ys = x # zs" "zs \<in> set (combinations xs k)"
    | "ys \<in> set (combinations xs (Suc k))"
    by auto
  then show ?case
  proof cases
    case 1
    with "3.IH"(1) [of zs] show ?thesis by auto
  next
    case 2
    with "3.IH"(2) [of ys] show ?thesis by auto
  qed
qed simp_all

lemma combinations_distinct_elem:
  "distinct xs \<Longrightarrow> ys \<in> set (combinations xs k) \<Longrightarrow> distinct ys"
proof (induction xs k arbitrary: ys rule: combinations.induct)
  case (3 x xs k)
  from "3.prems" have dx: "distinct xs" and nx: "x \<notin> set xs"
    by simp_all
  from "3.prems" consider zs where "ys = x # zs" "zs \<in> set (combinations xs k)"
    | "ys \<in> set (combinations xs (Suc k))"
    by auto
  then show ?case
  proof cases
    case 1
    from 1(2) have "set zs \<subseteq> set xs" using combinations_elem by blast
    with nx have "x \<notin> set zs" by blast
    with 1 "3.IH"(1) [OF dx, of zs] show ?thesis by simp
  next
    case 2
    with "3.IH"(2) [OF dx, of ys] show ?thesis by simp
  qed
qed simp_all

lemma combinations_ascending_iff:
  fixes xs :: "int list"
  assumes "sorted_wrt (<) xs"
  shows "ys \<in> set (combinations xs k) \<longleftrightarrow>
           length ys = k \<and> sorted_wrt (<) ys \<and> set ys \<subseteq> set xs"
  using assms
proof (induction xs k arbitrary: ys rule: combinations.induct)
  case (1 xs)
  then show ?case by auto
next
  case (2 k)
  then show ?case by auto
next
  case (3 x xs k)
  from "3.prems" have sx: "sorted_wrt (<) xs" and lt: "\<forall>y\<in>set xs. x < y"
    by simp_all
  note ih1 = "3.IH"(1) [OF sx] and ih2 = "3.IH"(2) [OF sx]
  show ?case
  proof
    assume "ys \<in> set (combinations (x # xs) (Suc k))"
    then consider zs where "ys = x # zs" "zs \<in> set (combinations xs k)"
      | "ys \<in> set (combinations xs (Suc k))"
      by auto
    then show "length ys = Suc k \<and> sorted_wrt (<) ys \<and> set ys \<subseteq> set (x # xs)"
    proof cases
      case 1
      then show ?thesis using ih1 [of zs] lt by auto
    next
      case 2
      then show ?thesis using ih2 [of ys] by auto
    qed
  next
    assume a: "length ys = Suc k \<and> sorted_wrt (<) ys \<and> set ys \<subseteq> set (x # xs)"
    then obtain y zs where ys: "ys = y # zs"
      by (cases ys) auto
    show "ys \<in> set (combinations (x # xs) (Suc k))"
    proof (cases "y = x")
      case True
      with a ys have "length zs = k \<and> sorted_wrt (<) zs \<and> set zs \<subseteq> set xs"
        by auto
      then show ?thesis using ih1 [of zs] ys True by simp
    next
      case False
      with a ys have "y \<in> set xs" by auto
      with lt have "x < y" by simp
      with a ys have "x \<notin> set ys" by auto
      with a have "set ys \<subseteq> set xs" by auto
      with a show ?thesis using ih2 [of ys] by simp
    qed
  qed
qed

lemma lex_less_Cons_map:
  "sorted_wrt lex_less yss \<Longrightarrow> sorted_wrt lex_less (map ((#) x) yss)"
  by (induction yss) auto

lemma combinations_lex:
  fixes xs :: "int list"
  assumes "sorted_wrt (<) xs"
  shows "sorted_wrt lex_less (combinations xs k)"
  using assms
proof (induction xs k rule: combinations.induct)
  case (3 x xs k)
  from "3.prems" have sx: "sorted_wrt (<) xs" and lt: "\<forall>y\<in>set xs. x < y"
    by simp_all
  have cross: "lex_less (x # a) b" if "b \<in> set (combinations xs (Suc k))" for a b
  proof -
    from that have "set b \<subseteq> set xs \<and> length b = Suc k"
      by (rule combinations_elem)
    then obtain y zs where "b = y # zs" "y \<in> set xs"
      by (cases b) auto
    with lt show ?thesis by simp
  qed
  show ?case
    using "3.IH"(1) [OF sx] "3.IH"(2) [OF sx] cross
    by (auto simp: sorted_wrt_append lex_less_Cons_map)
qed simp_all

lemma lex_less_irrefl: "\<not> lex_less a a"
  by (induction a) simp_all

lemma sorted_lex_less_distinct: "sorted_wrt lex_less cs \<Longrightarrow> distinct cs"
  by (induction cs) (auto simp: lex_less_irrefl)

lemma py_range_1: "py_range 1 (n + 1) = [1..n]"
  by (simp add: py_range_def)

lemma list_combination_eq:
  assumes "0 \<le> n"
  shows "list_combination n k =
           (if k < 0 then Inl ValueError else Inr (combinations [1..n] (nat k)))"
proof (cases "n < k")
  case True
  with assms have "length [1..n] < nat k" by simp
  then have "combinations [1..n] (nat k) = []" by (rule combinations_too_long)
  with True assms show ?thesis by (simp add: list_combination_def)
next
  case False
  then show ?thesis by (simp add: list_combination_def py_combinations_def py_range_1)
qed

text \<open>
  C6, amended. For all integers \<open>n \<ge> 0\<close> and \<open>k \<ge> 0\<close>, \<open>list_combination n k\<close> returns
  exactly the strictly ascending \<open>k\<close>-tuples over \<open>{1..n}\<close>, each once, \<open>n choose k\<close> of
  them, in lexicographic order; none when \<open>k > n\<close>, and the single empty tuple when
  \<open>k = 0\<close>.
\<close>

theorem list_combination_spec:
  assumes "0 \<le> n" and "0 \<le> k"
  shows "\<exists>cs. list_combination n k = Inr cs
           \<and> set cs = {c. length c = nat k \<and> sorted_wrt (<) c \<and> set c \<subseteq> {1..n}}
           \<and> length cs = nat n choose nat k
           \<and> sorted_wrt lex_less cs \<and> distinct cs
           \<and> (if n < k then cs = [] else cs \<noteq> [])
           \<and> (if k = 0 then cs = [[]] else [] \<notin> set cs)"
proof -
  let ?cs = "combinations [1..n] (nat k)"
  have asc: "sorted_wrt (<) [1..n]"
    using sorted_wrt_upto by simp
  have ret: "list_combination n k = Inr ?cs"
    using assms by (simp add: list_combination_eq)
  have mem: "set ?cs = {c. length c = nat k \<and> sorted_wrt (<) c \<and> set c \<subseteq> {1..n}}"
    using combinations_ascending_iff [OF asc, of _ "nat k"] by auto
  have len: "length ?cs = nat n choose nat k"
    using assms by (simp add: combinations_length)
  have lex: "sorted_wrt lex_less ?cs"
    using asc by (rule combinations_lex)
  have none: "if n < k then ?cs = [] else ?cs \<noteq> []"
  proof (cases "n < k")
    case True
    with assms have "length [1..n] < nat k" by simp
    then have "?cs = []" by (rule combinations_too_long)
    with True show ?thesis by simp
  next
    case False
    with assms have "0 < length ?cs" by (simp add: len)
    with False show ?thesis by auto
  qed
  have one: "if k = 0 then ?cs = [[]] else [] \<notin> set ?cs"
    using assms mem by auto
  from ret mem len lex none one sorted_lex_less_distinct [OF lex] show ?thesis
    by blast
qed

theorem list_combination_spec_witness:
  "(0::int) \<le> 4 \<and> (0::int) \<le> 2
   \<and> (\<exists>cs. list_combination 4 2 = Inr cs \<and> length cs = 6 \<and> sorted_wrt lex_less cs
          \<and> [2, 4] \<in> set cs \<and> [4, 2] \<notin> set cs \<and> cs \<noteq> [])"
  using list_combination_spec [of 4 2] by (auto simp: eval_nat_numeral)

text \<open>
  C6 as stated also covers negative \<open>k\<close>, where there is no subset to return; there
  \<open>combinations\<close> rejects the size and \<open>list_combination\<close> raises.
\<close>

theorem list_combination_negative_k: "list_combination 3 (- 1) = Inl ValueError"
  by (simp add: list_combination_def py_combinations_def)

section \<open>Properties of clause synthesis\<close>

declare generate_around.simps [simp del]

lemma bind_res_Inr [simp]: "bind_res (Inr x) f = f x"
  by (simp add: bind_res_def)

lemma bind_res_Inl [simp]: "bind_res (Inl e) f = Inl e"
  by (simp add: bind_res_def)

lemma bind_res_eq_Inr: "bind_res m f = Inr y \<longleftrightarrow> (\<exists>x. m = Inr x \<and> f x = Inr y)"
  by (cases m) simp_all

lemma map_res_Inr:
  "(\<And>x. x \<in> set xs \<Longrightarrow> f x = Inr (h x)) \<Longrightarrow> map_res f xs = Inr (map h xs)"
  by (induction xs) simp_all

lemma py_index_nth:
  "0 \<le> i \<Longrightarrow> i < int (length xs) \<Longrightarrow> py_index xs i = Inr (xs ! nat i)"
  by (simp add: py_index_def py_offset_def)

lemma indices_pick: "map (\<lambda>i. V ! nat (i - 1)) [1..int (length V)] = V"
proof (rule nth_equalityI)
  show "length (map (\<lambda>i. V ! nat (i - 1)) [1..int (length V)]) = length V"
    by simp
next
  fix k assume "k < length (map (\<lambda>i. V ! nat (i - 1)) [1..int (length V)])"
  then have k: "k < length V" by simp
  then have "[1..int (length V)] ! k = 1 + int k"
    by (simp add: nth_upto)
  with k show "map (\<lambda>i. V ! nat (i - 1)) [1..int (length V)] ! k = V ! k"
    by simp
qed

lemma literals_of_comb:
  assumes "comb \<in> set (combinations [1..int (length V)] k)"
  shows "map_res (\<lambda>index. bind_res (py_index V (index - 1)) (\<lambda>v. Inr (s v))) comb
           = Inr (map (\<lambda>index. s (V ! nat (index - 1))) comb)"
proof (rule map_res_Inr)
  fix index assume "index \<in> set comb"
  with assms combinations_elem [of comb "[1..int (length V)]" k]
  have "1 \<le> index \<and> index \<le> int (length V)" by auto
  then have "py_index V (index - 1) = Inr (V ! nat (index - 1))"
    by (simp add: py_index_nth)
  then show "bind_res (py_index V (index - 1)) (\<lambda>v. Inr (s v)) = Inr (s (V ! nat (index - 1)))"
    by simp
qed

lemma clauses_of_combs:
  "map_res (\<lambda>comb. map_res (\<lambda>index. bind_res (py_index V (index - 1)) (\<lambda>v. Inr (s v))) comb)
     (combinations [1..int (length V)] k)
   = Inr (map (map s) (combinations V k))"
proof -
  have "map_res (\<lambda>comb. map_res (\<lambda>index. bind_res (py_index V (index - 1)) (\<lambda>v. Inr (s v))) comb)
     (combinations [1..int (length V)] k)
     = Inr (map (map (\<lambda>index. s (V ! nat (index - 1)))) (combinations [1..int (length V)] k))"
    by (rule map_res_Inr) (rule literals_of_comb)
  also have "map (map (\<lambda>index. s (V ! nat (index - 1)))) (combinations [1..int (length V)] k)
     = combinations (map (\<lambda>index. s (V ! nat (index - 1))) [1..int (length V)]) k"
    by (simp only: combinations_map)
  also have "map (\<lambda>index. s (V ! nat (index - 1))) [1..int (length V)]
     = map s (map (\<lambda>i. V ! nat (i - 1)) [1..int (length V)])"
    by simp
  also have "\<dots> = map s V"
    by (simp only: indices_pick)
  finally show ?thesis by (simp only: combinations_map)
qed

lemma upper_clauses_eq:
  "upper_clauses V (combinations [1..int (length V)] k) = Inr (map (map uminus) (combinations V k))"
  unfolding upper_clauses_def by (rule clauses_of_combs)

lemma lower_clauses_eq:
  "lower_clauses V (combinations [1..int (length V)] k) = Inr (combinations V k)"
proof -
  have "(\<lambda>index. py_index V (index - 1)) = (\<lambda>index. bind_res (py_index V (index - 1)) (\<lambda>v. Inr (id v)))"
    by (rule ext) (simp add: bind_res_def split: sum.splits)
  then show ?thesis
    unfolding lower_clauses_def using clauses_of_combs [of V id k] by simp
qed

lemma generate_CNF_Hint:
  assumes "grid_get st g r c = Inr (Hint h)"
    and "collect_cells st (generate_around (r, c) sz) g sz = Inr V"
  shows "generate_CNF st (r, c) g sz =
           (if h + 1 < 0 \<or> int (length V) - h + 1 < 0 then Inl ValueError
            else Inr (map (map uminus) (combinations V (nat (h + 1)))
                      @ combinations V (nat (int (length V) - h + 1))))"
  using assms
  by (simp add: list_combination_eq upper_clauses_eq lower_clauses_eq Let_def)


lemma collect_cells_Inr:
  assumes "collect_cells st ps g (rows, cols) = Inr V"
    and "\<forall>(a, b) \<in> set ps. 0 \<le> a \<and> a < rows \<and> 0 \<le> b \<and> b < cols"
  shows "V = map (\<lambda>p. convert_to_flatten p (rows, cols))
               (filter (\<lambda>(a, b). grid_get st g a b = Inr Unknown) ps)"
  using assms
proof (induction ps arbitrary: V)
  case Nil
  then show ?case by simp
next
  case (Cons p ps)
  obtain a b where p: "p = (a, b)" by (cases p)
  from Cons.prems(2) p have inb: "0 \<le> a \<and> a < rows \<and> 0 \<le> b \<and> b < cols"
    and rest: "\<forall>(a, b) \<in> set ps. 0 \<le> a \<and> a < rows \<and> 0 \<le> b \<and> b < cols"
    by simp_all
  from Cons.prems(1) p inb obtain cell W where
    cell: "grid_get st g a b = Inr cell" and W: "collect_cells st ps g (rows, cols) = Inr W"
    and V: "V = (if cell = Unknown then convert_to_flatten (a, b) (rows, cols) # W else W)"
    by (auto simp: bind_res_eq_Inr simp del: convert_to_flatten.simps)
  from Cons.IH [OF W rest] cell V p show ?case
    by (simp del: convert_to_flatten.simps)
qed

lemma collect_cells_total:
  assumes "\<forall>(a, b) \<in> set ps. 0 \<le> a \<and> a < rows \<and> 0 \<le> b \<and> b < cols
              \<longrightarrow> (\<exists>cell. grid_get st g a b = Inr cell)"
  shows "\<exists>V. collect_cells st ps g (rows, cols) = Inr V"
  using assms
proof (induction ps)
  case Nil
  then show ?case by simp
next
  case (Cons p ps)
  obtain a b where p: "p = (a, b)" by (cases p)
  from Cons.prems p obtain v where "is_valid st p g (rows, cols) = Inr v"
    by (cases "0 \<le> a \<and> a < rows \<and> 0 \<le> b \<and> b < cols") auto
  moreover from Cons obtain W where "collect_cells st ps g (rows, cols) = Inr W"
    by auto
  ultimately show ?case by simp
qed

lemma flatten_inj:
  assumes "0 \<le> c" "c < cols" "0 \<le> c'" "c' < cols"
    and "convert_to_flatten (r, c) (rows, cols) = convert_to_flatten (r', c') (rows, cols)"
  shows "r = r' \<and> c = c'"
proof -
  from assms(5) have e: "r * cols + c = r' * cols + c'" by simp
  from assms(1-4) have "(r * cols + c) div cols = r" "(r' * cols + c') div cols = r'"
    by simp_all
  with e have "r = r'" by simp
  with e show ?thesis by simp
qed

lemma flatten_positive:
  "0 \<le> r \<Longrightarrow> 0 \<le> c \<Longrightarrow> c < cols \<Longrightarrow> 0 < convert_to_flatten (r, c) (rows, cols)"
  by (simp add: add_nonneg_pos)

lemma generate_around_distinct: "distinct (generate_around (r, c) (rows, cols))"
proof -
  have "distinct [(r - 1, c - 1), (r - 1, c), (r - 1, c + 1),
        (r, c - 1), (r, c), (r, c + 1),
        (r + 1, c - 1), (r + 1, c), (r + 1, c + 1)]"
    by simp
  then show ?thesis
    by (simp only: generate_around_list distinct_filter)
qed

text \<open>The variables of the unknown neighbours, as the first loop collects them.\<close>

lemma neighbour_vars:
  assumes "collect_cells st (generate_around (r, c) (rows, cols)) g (rows, cols) = Inr V"
  shows "V = map (\<lambda>p. convert_to_flatten p (rows, cols))
               (filter (\<lambda>(a, b). grid_get st g a b = Inr Unknown)
                  (generate_around (r, c) (rows, cols)))"
    and "distinct V" and "\<forall>v \<in> set V. 0 < v"
proof -
  let ?ps = "generate_around (r, c) (rows, cols)"
  let ?qs = "filter (\<lambda>(a, b). grid_get st g a b = Inr Unknown) ?ps"
  have inb: "\<forall>(a, b) \<in> set ?ps. 0 \<le> a \<and> a < rows \<and> 0 \<le> b \<and> b < cols"
    using generate_around_bounds by blast
  show V: "V = map (\<lambda>p. convert_to_flatten p (rows, cols)) ?qs"
    using assms inb by (rule collect_cells_Inr)
  have qb: "\<forall>(a, b) \<in> set ?qs. 0 \<le> a \<and> a < rows \<and> 0 \<le> b \<and> b < cols"
    using inb by auto
  have "inj_on (\<lambda>p. convert_to_flatten p (rows, cols)) (set ?qs)"
  proof (rule inj_onI)
    fix p q assume "p \<in> set ?qs" "q \<in> set ?qs"
      and e: "convert_to_flatten p (rows, cols) = convert_to_flatten q (rows, cols)"
    with qb obtain a b a' b' where "p = (a, b)" "q = (a', b')"
      "0 \<le> b" "b < cols" "0 \<le> b'" "b' < cols"
      by (cases p; cases q) blast
    with e flatten_inj [of b cols b' a rows a'] show "p = q" by simp
  qed
  moreover have "distinct ?qs"
    using generate_around_distinct by (simp only: distinct_filter)
  ultimately show "distinct V"
    unfolding V by (simp only: distinct_map)
  show "\<forall>v \<in> set V. 0 < v"
  proof
    fix v assume "v \<in> set V"
    with V obtain p where "p \<in> set ?qs" "v = convert_to_flatten p (rows, cols)"
      by auto
    with qb obtain a b where "p = (a, b)" "0 \<le> a" "0 \<le> b" "b < cols"
      by (cases p) blast
    with \<open>v = _\<close> flatten_positive [of a b cols rows] show "0 < v" by simp
  qed
qed


lemma clauses_Cons:
  "(\<forall>ys \<in> set (combinations (x # xs) (Suc k)). \<exists>y \<in> set ys. Q y) \<longleftrightarrow>
     (Q x \<or> (\<forall>zs \<in> set (combinations xs k). \<exists>y \<in> set zs. Q y))
     \<and> (\<forall>ys \<in> set (combinations xs (Suc k)). \<exists>y \<in> set ys. Q y)"
  by (simp add: ball_Un)

lemma at_most_clauses:
  "(\<forall>ys \<in> set (combinations xs (Suc h)). \<exists>y \<in> set ys. \<not> P y) \<longleftrightarrow> length (filter P xs) \<le> h"
proof (induction xs arbitrary: h)
  case Nil
  then show ?case by simp
next
  case (Cons x xs)
  show ?case
  proof (cases h)
    case 0
    have "(\<forall>zs \<in> set (combinations xs 0). \<exists>y \<in> set zs. \<not> P y) = False"
      by simp
    with Cons.IH [of 0] 0 show ?thesis
      by (simp only: clauses_Cons) auto
  next
    case (Suc h')
    with Cons.IH [of h'] Cons.IH [of "Suc h'"] show ?thesis
      by (simp only: clauses_Cons) auto
  qed
qed

lemma at_least_clauses:
  assumes "h \<le> length xs"
  shows "(\<forall>ys \<in> set (combinations xs (Suc (length xs - h))). \<exists>y \<in> set ys. P y)
           \<longleftrightarrow> h \<le> length (filter P xs)"
proof -
  have "(\<forall>ys \<in> set (combinations xs (Suc (length xs - h))). \<exists>y \<in> set ys. \<not> \<not> P y)
          \<longleftrightarrow> length (filter (\<lambda>y. \<not> P y) xs) \<le> length xs - h"
    by (rule at_most_clauses)
  moreover have "length (filter P xs) + length (filter (\<lambda>y. \<not> P y) xs) = length xs"
    by (rule sum_length_filter_compl)
  ultimately show ?thesis using assms by simp linarith
qed

lemma lit_true_pos: "0 < v \<Longrightarrow> lit_true \<sigma> v = \<sigma> v"
  by (simp add: lit_true_def)

lemma lit_true_neg: "0 < v \<Longrightarrow> lit_true \<sigma> (- v) = (\<not> \<sigma> v)"
  by (simp add: lit_true_def)

lemma cnf_sat_append: "cnf_sat \<sigma> (cs @ ds) \<longleftrightarrow> cnf_sat \<sigma> cs \<and> cnf_sat \<sigma> ds"
  by (simp add: cnf_sat_def)

lemma cnf_sat_negative:
  assumes "\<forall>v \<in> set V. 0 < v"
  shows "cnf_sat \<sigma> (map (map uminus) (combinations V k))
           \<longleftrightarrow> (\<forall>ys \<in> set (combinations V k). \<exists>y \<in> set ys. \<not> \<sigma> y)"
proof -
  have "clause_sat \<sigma> (map uminus ys) \<longleftrightarrow> (\<exists>y \<in> set ys. \<not> \<sigma> y)"
    if "ys \<in> set (combinations V k)" for ys
  proof -
    from that have "set ys \<subseteq> set V" using combinations_elem by blast
    with assms have "\<forall>y \<in> set ys. lit_true \<sigma> (- y) = (\<not> \<sigma> y)"
      by (auto simp: lit_true_neg)
    then show ?thesis by (simp add: clause_sat_def list_ex_iff)
  qed
  then show ?thesis by (simp add: cnf_sat_def list_all_iff)
qed

lemma cnf_sat_positive:
  assumes "\<forall>v \<in> set V. 0 < v"
  shows "cnf_sat \<sigma> (combinations V k)
           \<longleftrightarrow> (\<forall>ys \<in> set (combinations V k). \<exists>y \<in> set ys. \<sigma> y)"
proof -
  have "clause_sat \<sigma> ys \<longleftrightarrow> (\<exists>y \<in> set ys. \<sigma> y)"
    if "ys \<in> set (combinations V k)" for ys
  proof -
    from that have "set ys \<subseteq> set V" using combinations_elem by blast
    with assms have "\<forall>y \<in> set ys. lit_true \<sigma> y = \<sigma> y"
      by (auto simp: lit_true_pos)
    then show ?thesis by (simp add: clause_sat_def list_ex_iff)
  qed
  then show ?thesis by (simp add: cnf_sat_def list_all_iff)
qed

lemma exactly_clauses:
  assumes pos: "\<forall>v \<in> set V. 0 < v" and "distinct V"
    and h: "0 \<le> h" "h \<le> int (length V)"
  shows "cnf_sat \<sigma> (map (map uminus) (combinations V (nat (h + 1)))
                      @ combinations V (nat (int (length V) - h + 1)))
           \<longleftrightarrow> int (card {v \<in> set V. \<sigma> v}) = h"
proof -
  from h have k1: "nat (h + 1) = Suc (nat h)"
    and k2: "nat (int (length V) - h + 1) = Suc (length V - nat h)"
    by linarith+
  have "cnf_sat \<sigma> (map (map uminus) (combinations V (Suc (nat h)))) \<longleftrightarrow>
          length (filter \<sigma> V) \<le> nat h"
    by (simp only: cnf_sat_negative [OF pos] at_most_clauses)
  moreover from h have "nat h \<le> length V" by linarith
  then have "cnf_sat \<sigma> (combinations V (Suc (length V - nat h))) \<longleftrightarrow>
          nat h \<le> length (filter \<sigma> V)"
    by (simp only: cnf_sat_positive [OF pos] at_least_clauses)
  moreover have "length (filter \<sigma> V) = card {v \<in> set V. \<sigma> v}"
    using \<open>distinct V\<close> by (simp add: distinct_length_filter Int_def conj_commute)
  ultimately show ?thesis
    using h by (simp only: cnf_sat_append k1 k2) linarith
qed


lemma grid_get_of_size:
  assumes "grid_of_size st g (rows, cols)"
    and "0 \<le> a" "a < rows" "0 \<le> b" "b < cols"
  shows "grid_get st g a b = Inr (st (g ! nat a) ! nat b)"
proof -
  from assms have a: "nat a < length g" by simp linarith
  from assms have "py_index g a = Inr (g ! nat a)"
    by (simp add: py_index_nth)
  moreover from a have "g ! nat a \<in> set g" by (rule nth_mem)
  with assms(1) have "int (length (st (g ! nat a))) = cols"
    by (simp add: list_all_iff)
  with assms have "py_index (st (g ! nat a)) b = Inr (st (g ! nat a) ! nat b)"
    by (simp add: py_index_nth)
  ultimately show ?thesis by (simp add: grid_get_def)
qed

lemma generate_CNF_Inr_Hint:
  assumes "generate_CNF st (r, c) g (rows, cols) = Inr cls"
    and "grid_get st g r c = Inr (Hint h)"
  obtains V where "collect_cells st (generate_around (r, c) (rows, cols)) g (rows, cols) = Inr V"
    and "\<not> (h + 1 < 0 \<or> int (length V) - h + 1 < 0)"
    and "cls = map (map uminus) (combinations V (nat (h + 1)))
                 @ combinations V (nat (int (length V) - h + 1))"
proof -
  from assms obtain V where
    V: "collect_cells st (generate_around (r, c) (rows, cols)) g (rows, cols) = Inr V"
    by (auto simp: bind_res_eq_Inr)
  from generate_CNF_Hint [OF assms(2) V] assms(1) that [OF V] show thesis
    by (simp split: if_splits)
qed

text \<open>
  C1. For a cell holding the hint \<open>h\<close>, let \<open>V\<close> be the variables of its unknown
  neighbours. When \<open>0 \<le> h \<le> |V|\<close>, an assignment satisfies every clause that
  \<open>generate_CNF\<close> returns if and only if exactly \<open>h\<close> of the variables in \<open>V\<close> are true;
  and on a grid of the given size \<open>generate_CNF\<close> does return.
\<close>

theorem generate_CNF_exactly:
  assumes hint: "grid_get st g r c = Inr (Hint h)"
    and V: "V = map (\<lambda>p. convert_to_flatten p (rows, cols))
                  (filter (\<lambda>(a, b). grid_get st g a b = Inr Unknown)
                     (generate_around (r, c) (rows, cols)))"
    and h: "0 \<le> h" "h \<le> int (length V)"
  shows "(grid_of_size st g (rows, cols)
            \<longrightarrow> (\<exists>cls. generate_CNF st (r, c) g (rows, cols) = Inr cls))
       \<and> (\<forall>cls. generate_CNF st (r, c) g (rows, cols) = Inr cls
            \<longrightarrow> (cnf_sat \<sigma> cls \<longleftrightarrow> int (card {v \<in> set V. \<sigma> v}) = h))"
proof (intro conjI impI allI)
  assume wf: "grid_of_size st g (rows, cols)"
  have "\<forall>(a, b) \<in> set (generate_around (r, c) (rows, cols)).
          0 \<le> a \<and> a < rows \<and> 0 \<le> b \<and> b < cols \<longrightarrow> (\<exists>cell. grid_get st g a b = Inr cell)"
    using grid_get_of_size [OF wf] by blast
  then obtain W where
    W: "collect_cells st (generate_around (r, c) (rows, cols)) g (rows, cols) = Inr W"
    using collect_cells_total by blast
  from neighbour_vars(1) [OF W] V have "W = V" by simp
  with generate_CNF_Hint [OF hint W] h
  show "\<exists>cls. generate_CNF st (r, c) g (rows, cols) = Inr cls"
    by simp
next
  fix cls assume ret: "generate_CNF st (r, c) g (rows, cols) = Inr cls"
  from ret hint obtain W where
    W: "collect_cells st (generate_around (r, c) (rows, cols)) g (rows, cols) = Inr W"
    and cls: "cls = map (map uminus) (combinations W (nat (h + 1)))
                 @ combinations W (nat (int (length W) - h + 1))"
    by (rule generate_CNF_Inr_Hint)
  from neighbour_vars [OF W] V have "W = V" "distinct W" "\<forall>v \<in> set W. 0 < v"
    by simp_all
  with h cls show "cnf_sat \<sigma> cls \<longleftrightarrow> int (card {v \<in> set V. \<sigma> v}) = h"
    using exactly_clauses [of V h \<sigma>] by simp
qed

lemma grid_a_around: "generate_around (0, 0) (2, 2) = [(0, 0), (0, 1), (1, 0), (1, 1)]"
  by (simp add: generate_around_list)

lemma grid_a_get:
  "grid_get grid_a [0, 1] 0 0 = Inr (Hint 1)"
  "grid_get grid_a [0, 1] 0 1 = Inr Unknown"
  "grid_get grid_a [0, 1] 1 0 = Inr Unknown"
  "grid_get grid_a [0, 1] 1 1 = Inr (Hint 2)"
  by (simp_all add: grid_a_def grid_get_def py_index_def py_offset_def)

lemma grid_a_CNF: "generate_CNF grid_a (0, 0) [0, 1] (2, 2) = Inr [[- 2, - 3], [2, 3]]"
  by code_simp

theorem generate_CNF_exactly_witness:
  "grid_get grid_a [0, 1] 0 0 = Inr (Hint 1)
   \<and> grid_of_size grid_a [0, 1] (2, 2)
   \<and> generate_CNF grid_a (0, 0) [0, 1] (2, 2) = Inr [[- 2, - 3], [2, 3]]
   \<and> cnf_sat (\<lambda>v. v = 3) [[- 2, - 3], [2, 3]]
   \<and> int (card {v \<in> set [2, 3]. v = (3::int)}) = 1"
proof -
  have V: "[2, 3] = map (\<lambda>p. convert_to_flatten p (2, 2))
                  (filter (\<lambda>(a, b). grid_get grid_a [0, 1] a b = Inr Unknown)
                     (generate_around (0, 0) (2, 2)))"
    by code_simp
  have sat: "cnf_sat (\<lambda>v. v = 3) [[- 2, - 3], [2, 3]]"
    by (simp add: cnf_sat_def clause_sat_def lit_true_def)
  have wf: "grid_of_size grid_a [0, 1] (2, 2)"
    by (simp add: grid_a_def)
  from generate_CNF_exactly [OF grid_a_get(1) V, of "\<lambda>v. v = 3"] grid_a_CNF sat wf grid_a_get(1)
  show ?thesis by simp
qed

section \<open>Properties of the clauses of one cell\<close>

lemma generate_CNF_Inr_cases:
  assumes "generate_CNF st (r, c) g sz = Inr cls"
  obtains "grid_get st g r c = Inr Unknown" and "cls = []"
  | h where "grid_get st g r c = Inr (Hint h)"
proof -
  from assms obtain cell where cell: "grid_get st g r c = Inr cell"
    by (auto simp: bind_res_eq_Inr)
  show thesis
  proof (cases cell)
    case Unknown
    with cell assms that(1) show thesis by simp
  next
    case (Hint h)
    with cell that(2) show thesis by simp
  next
    case Mine
    with cell assms show thesis by (simp add: bind_res_eq_Inr)
  next
    case Safe
    with cell assms show thesis by (simp add: bind_res_eq_Inr)
  qed
qed

lemma abs_negated: "\<forall>y \<in> set ys. 0 < y \<Longrightarrow> map abs (map uminus ys) = (ys :: int list)"
  by (induction ys) simp_all

lemma abs_positive: "\<forall>y \<in> set ys. 0 < y \<Longrightarrow> map abs ys = (ys :: int list)"
  by (induction ys) simp_all

text \<open>
  C10. In every clause that \<open>generate_CNF\<close> returns, the literals are over pairwise
  distinct variables: no literal occurs twice, and no variable occurs both plain and
  negated.
\<close>

theorem generate_CNF_distinct_vars:
  assumes "generate_CNF st (r, c) g (rows, cols) = Inr cls" and "cl \<in> set cls"
  shows "distinct (map abs cl)"
  using assms(1)
proof (cases rule: generate_CNF_Inr_cases)
  case 1
  with assms(2) show ?thesis by simp
next
  case (2 h)
  with assms(1) obtain V where
    V: "collect_cells st (generate_around (r, c) (rows, cols)) g (rows, cols) = Inr V"
    and cls: "cls = map (map uminus) (combinations V (nat (h + 1)))
                 @ combinations V (nat (int (length V) - h + 1))"
    by (rule generate_CNF_Inr_Hint)
  from neighbour_vars [OF V] have dV: "distinct V" and pos: "\<forall>v \<in> set V. 0 < v"
    by simp_all
  from assms(2) cls obtain ys k where ys: "ys \<in> set (combinations V k)"
    and cl: "cl = map uminus ys \<or> cl = ys"
    by auto
  from ys have "set ys \<subseteq> set V" using combinations_elem by blast
  with pos have "\<forall>y \<in> set ys. 0 < y" by blast
  then have "map abs (map uminus ys) = ys" "map abs ys = ys"
    by (simp_all only: abs_negated abs_positive)
  moreover from dV ys have "distinct ys" by (rule combinations_distinct_elem)
  ultimately show ?thesis using cl by auto
qed

theorem generate_CNF_distinct_vars_witness:
  "generate_CNF grid_a (0, 0) [0, 1] (2, 2) = Inr [[- 2, - 3], [2, 3]]
   \<and> [- 2, - 3] \<in> set [[- 2, - 3], [2, 3 :: int]]
   \<and> distinct (map abs [- 2, - 3 :: int])"
  using generate_CNF_distinct_vars [OF grid_a_CNF, of "[- 2, - 3]"] grid_a_CNF by simp

section \<open>Properties of the formula\<close>

lemma map_res_Inr_iff: "map_res f xs = Inr ys \<longleftrightarrow> list_all2 (\<lambda>x y. f x = Inr y) xs ys"
proof (induction xs arbitrary: ys)
  case Nil
  show ?case by auto
next
  case (Cons x xs)
  show ?case
    by (cases ys) (auto simp: bind_res_eq_Inr Cons.IH)
qed

lemma extend_all: "fold (\<lambda>clause cnf. cnf @ clause) css acc = acc @ concat css"
  by (induction css arbitrary: acc) simp_all

lemma positions_row_major:
  "positions (rows, cols) = [(r, c). r \<leftarrow> [0..rows - 1], c \<leftarrow> [0..cols - 1]]"
  by (simp add: py_range_def concat_map_singleton)

lemma assemble_cnf_iff:
  "assemble_cnf st g sz = Inr cnf \<longleftrightarrow>
     (\<exists>css. list_all2 (\<lambda>p cls. generate_CNF st p g sz = Inr cls) (positions sz) css
        \<and> cnf = concat css)"
  by (auto simp: assemble_cnf_def bind_res_eq_Inr map_res_Inr_iff extend_all)

text \<open>
  C5. The formula handed to the solver is the concatenation, over the positions in
  row-major order, of the clause lists that \<open>generate_CNF\<close> returns for them, kept as they
  are; the list of an unknown cell is empty, and the list of a hint cell is its
  upper-bound clauses followed by its lower-bound clauses.
\<close>

theorem assemble_cnf_row_major:
  "(assemble_cnf st g (rows, cols) = Inr cnf \<longleftrightarrow>
      (\<exists>css. list_all2 (\<lambda>p cls. generate_CNF st p g (rows, cols) = Inr cls)
                [(r, c). r \<leftarrow> [0..rows - 1], c \<leftarrow> [0..cols - 1]] css
         \<and> cnf = concat css))
   \<and> (solve_by_pysat solver st g (rows, cols) = Inr res \<longleftrightarrow>
        (\<exists>cnf. assemble_cnf st g (rows, cols) = Inr cnf \<and> res = solver cnf))
   \<and> (grid_get st g r c = Inr Unknown \<longrightarrow> generate_CNF st (r, c) g (rows, cols) = Inr [])
   \<and> (grid_get st g r c = Inr (Hint h) \<and> generate_CNF st (r, c) g (rows, cols) = Inr cls \<longrightarrow>
        (\<exists>V upper lower.
           V = map (\<lambda>p. convert_to_flatten p (rows, cols))
                 (filter (\<lambda>(a, b). grid_get st g a b = Inr Unknown)
                    (generate_around (r, c) (rows, cols)))
         \<and> upper = map (map uminus) (combinations V (nat (h + 1)))
         \<and> lower = combinations V (nat (int (length V) - h + 1))
         \<and> cls = upper @ lower))"
proof (intro conjI impI)
  show "assemble_cnf st g (rows, cols) = Inr cnf \<longleftrightarrow>
      (\<exists>css. list_all2 (\<lambda>p cls. generate_CNF st p g (rows, cols) = Inr cls)
                [(r, c). r \<leftarrow> [0..rows - 1], c \<leftarrow> [0..cols - 1]] css
         \<and> cnf = concat css)"
    by (simp only: assemble_cnf_iff positions_row_major)
  show "solve_by_pysat solver st g (rows, cols) = Inr res \<longleftrightarrow>
        (\<exists>cnf. assemble_cnf st g (rows, cols) = Inr cnf \<and> res = solver cnf)"
    by (auto simp: solve_by_pysat_def bind_res_eq_Inr)
  show "generate_CNF st (r, c) g (rows, cols) = Inr []" if "grid_get st g r c = Inr Unknown"
    using that by simp
next
  assume a: "grid_get st g r c = Inr (Hint h) \<and> generate_CNF st (r, c) g (rows, cols) = Inr cls"
  then obtain V where
    V: "collect_cells st (generate_around (r, c) (rows, cols)) g (rows, cols) = Inr V"
    and cls: "cls = map (map uminus) (combinations V (nat (h + 1)))
                 @ combinations V (nat (int (length V) - h + 1))"
    using generate_CNF_Inr_Hint by blast
  from neighbour_vars(1) [OF V] cls
  show "\<exists>V upper lower.
           V = map (\<lambda>p. convert_to_flatten p (rows, cols))
                 (filter (\<lambda>(a, b). grid_get st g a b = Inr Unknown)
                    (generate_around (r, c) (rows, cols)))
         \<and> upper = map (map uminus) (combinations V (nat (h + 1)))
         \<and> lower = combinations V (nat (int (length V) - h + 1))
         \<and> cls = upper @ lower"
    by simp
qed

theorem assemble_cnf_row_major_witness:
  "assemble_cnf grid_a [0, 1] (2, 2) = Inr [[- 2, - 3], [2, 3], [2], [3]]
   \<and> solve_by_pysat (\<lambda>cnf. None) grid_a [0, 1] (2, 2) = Inr None
   \<and> grid_get grid_a [0, 1] 0 1 = Inr Unknown
   \<and> generate_CNF grid_a (0, 1) [0, 1] (2, 2) = Inr []
   \<and> grid_get grid_a [0, 1] 1 1 = Inr (Hint 2)
   \<and> generate_CNF grid_a (1, 1) [0, 1] (2, 2) = Inr [[2], [3]]
   \<and> [[2], [3]] = map (map uminus) (combinations [2, 3] (nat (2 + 1)))
                     @ combinations [2, 3 :: int] (nat (int (length [2, 3 :: int]) - 2 + 1))"
proof -
  note unknown_cell = assemble_cnf_row_major
    [of grid_a "[0, 1]" 2 2 "[[- 2, - 3], [2, 3], [2], [3]]" "\<lambda>cnf. None" None 0 1 2 "[[2], [3]]"]
  note hint_cell = assemble_cnf_row_major
    [of grid_a "[0, 1]" 2 2 "[[- 2, - 3], [2, 3], [2], [3]]" "\<lambda>cnf. None" None 1 1 2 "[[2], [3]]"]
  have "list_all2 (\<lambda>p cls. generate_CNF grid_a p [0, 1] (2, 2) = Inr cls)
          [(r, c). r \<leftarrow> [0..2 - 1], c \<leftarrow> [0..2 - 1]]
          [[[- 2, - 3], [2, 3]], [], [], [[2], [3]]]"
    by code_simp
  moreover have "[[- 2, - 3], [2, 3], [2], [3]]
      = concat [[[- 2, - 3], [2, 3]], [], [], [[2 :: int], [3]]]"
    by simp
  ultimately have formula: "assemble_cnf grid_a [0, 1] (2, 2) = Inr [[- 2, - 3], [2, 3], [2], [3]]"
    using unknown_cell by blast
  with unknown_cell have solver: "solve_by_pysat (\<lambda>cnf. None) grid_a [0, 1] (2, 2) = Inr None"
    by blast
  from unknown_cell grid_a_get(2) have empty: "generate_CNF grid_a (0, 1) [0, 1] (2, 2) = Inr []"
    by blast
  have cell: "generate_CNF grid_a (1, 1) [0, 1] (2, 2) = Inr [[2], [3]]"
    by code_simp
  have vars: "map (\<lambda>p. convert_to_flatten p (2, 2))
          (filter (\<lambda>(a, b). grid_get grid_a [0, 1] a b = Inr Unknown)
             (generate_around (1, 1) (2, 2))) = [2, 3]"
    by code_simp
  from hint_cell grid_a_get(4) cell obtain V where
    "V = map (\<lambda>p. convert_to_flatten p (2, 2))
          (filter (\<lambda>(a, b). grid_get grid_a [0, 1] a b = Inr Unknown)
             (generate_around (1, 1) (2, 2)))"
    and split: "[[2], [3]] = map (map uminus) (combinations V (nat (2 + 1)))
                     @ combinations V (nat (int (length V) - 2 + 1))"
    by blast
  with vars have "V = [2, 3]" by (simp only:)
  with split
  have "[[2], [3]] = map (map uminus) (combinations [2, 3] (nat (2 + 1)))
                     @ combinations [2, 3 :: int] (nat (int (length [2, 3 :: int]) - 2 + 1))"
    by (simp only:)
  with formula solver empty cell grid_a_get(2) grid_a_get(4) show ?thesis
    by (simp only: simp_thms)
qed

text \<open>
  C3. A hint that exceeds the number of unknown neighbours by two or more makes the
  lower-bound step ask \<open>list_combination\<close> for combinations of a negative size, which raises
  ValueError: on the 1 x 1 grid \<open>[[2]]\<close> clause synthesis, formula construction and the
  whole solve raise instead of reporting that there is no solution.
\<close>

theorem hint_too_large_raises:
  "generate_CNF grid_b (0, 0) [0] (1, 1) = Inl ValueError
   \<and> assemble_cnf grid_b [0] (1, 1) = Inl ValueError
   \<and> solve_by_pysat solver grid_b [0] (1, 1) = Inl ValueError
   \<and> Pysat_Solution solver [0] (1, 1) grid_b = (Inl ValueError, grid_b)"
proof -
  have "assemble_cnf grid_b [0] (1, 1) = Inl ValueError"
    by code_simp
  moreover have "generate_CNF grid_b (0, 0) [0] (1, 1) = Inl ValueError"
    by code_simp
  ultimately show ?thesis
    by (simp add: solve_by_pysat_def)
qed

section \<open>Properties of the decoder\<close>

lemma py_offset_nth: "0 \<le> i \<Longrightarrow> i < int len \<Longrightarrow> py_offset len i = Inr (nat i)"
  by (simp add: py_offset_def)

lemma grid_get_nth:
  assumes "0 \<le> r" "nat r < length g" "0 \<le> c" "nat c < length (st (g ! nat r))"
  shows "grid_get st g r c = Inr (st (g ! nat r) ! nat c)"
  using assms by (simp add: grid_get_def py_index_nth)

lemma grid_set_nth:
  assumes "0 \<le> r" "nat r < length g" "0 \<le> c" "nat c < length (st (g ! nat r))"
  shows "grid_set st g r c v = Inr (st(g ! nat r := (st (g ! nat r))[nat c := v]))"
  using assms by (simp add: grid_set_def py_index_nth py_offset_nth)

lemma ouput_cols_step:
  assumes r: "0 \<le> r" "nat r < length g"
    and c: "0 \<le> c" "nat c < length (st (g ! nat r))" "c < num_c"
  shows "ouput_cols lr g num_c r (c # cs) st =
           ouput_cols lr g num_c r cs
             (st(g ! nat r := (st (g ! nat r))[nat c := decoded lr num_c r c (st (g ! nat r) ! nat c)]))"
proof -
  have get: "grid_get st g r c = Inr (st (g ! nat r) ! nat c)"
    using r c by (simp add: grid_get_nth)
  have set: "grid_set st g r c v = Inr (st(g ! nat r := (st (g ! nat r))[nat c := v]))" for v
    using r c by (simp add: grid_set_nth)
  show ?thesis
  proof (cases "st (g ! nat r) ! nat c = Unknown")
  case False
  then have "decoded lr num_c r c (st (g ! nat r) ! nat c) = st (g ! nat r) ! nat c"
    by (simp add: decoded_def)
  then have "st(g ! nat r := (st (g ! nat r))[nat c := decoded lr num_c r c (st (g ! nat r) ! nat c)]) = st"
    by simp
  with False get show ?thesis by simp
next
  case True
  from r c have "0 \<le> r * num_c + c" by simp
  then have "(if r * num_c + c < int (length lr)
              then bind_res (py_index lr (r * num_c + c)) (\<lambda>v. Inr (v > 0))
              else Inr False)
           = Inr (r * num_c + c < int (length lr) \<and> lr ! nat (r * num_c + c) > 0)"
    by (simp add: py_index_nth)
  moreover from True
  have "decoded lr num_c r c (st (g ! nat r) ! nat c)
      = (if r * num_c + c < int (length lr) \<and> lr ! nat (r * num_c + c) > 0 then Mine else Safe)"
    by (simp add: decoded_def)
  ultimately show ?thesis
    using True get set by (simp add: Let_def)
  qed
qed

declare ouput_cols.simps [simp del]

text \<open>The inner loop over a list of distinct columns of row \<open>r\<close>.\<close>

lemma ouput_cols_all:
  assumes r: "0 \<le> r" "nat r < length g"
    and cs: "\<forall>c \<in> set cs. 0 \<le> c \<and> nat c < length (st (g ! nat r)) \<and> c < num_c"
    and d: "distinct cs"
  shows "ouput_cols lr g num_c r cs st =
           (Inr (), st(g ! nat r :=
              map (\<lambda>k. if int k \<in> set cs then decoded lr num_c r (int k) (st (g ! nat r) ! k)
                       else st (g ! nat r) ! k)
                [0..<length (st (g ! nat r))]))"
  using cs d
proof (induction cs arbitrary: st)
  case Nil
  have "map (\<lambda>k. st (g ! nat r) ! k) [0..<length (st (g ! nat r))] = st (g ! nat r)"
    by (rule map_nth)
  then show ?case by (simp add: ouput_cols.simps)
next
  case (Cons c cs)
  let ?a = "g ! nat r"
  let ?d = "decoded lr num_c r c (st ?a ! nat c)"
  let ?st1 = "st(?a := (st ?a)[nat c := ?d])"
  from Cons.prems have c: "0 \<le> c" "nat c < length (st ?a)" "c < num_c" and nc: "c \<notin> set cs"
    by simp_all
  have row1: "?st1 ?a = (st ?a)[nat c := ?d]" by simp
  from Cons.prems have "\<forall>c \<in> set cs. 0 \<le> c \<and> nat c < length (?st1 ?a) \<and> c < num_c"
    by simp
  moreover from Cons.prems have "distinct cs" by simp
  ultimately have "ouput_cols lr g num_c r cs ?st1 =
      (Inr (), ?st1(?a :=
         map (\<lambda>k. if int k \<in> set cs then decoded lr num_c r (int k) (?st1 ?a ! k)
                  else ?st1 ?a ! k)
           [0..<length (?st1 ?a)]))"
    by (rule Cons.IH)
  moreover have "map (\<lambda>k. if int k \<in> set cs then decoded lr num_c r (int k) (?st1 ?a ! k)
                  else ?st1 ?a ! k) [0..<length (?st1 ?a)]
      = map (\<lambda>k. if int k \<in> set (c # cs) then decoded lr num_c r (int k) (st ?a ! k)
                  else st ?a ! k) [0..<length (st ?a)]"
  proof (rule nth_equalityI)
    show "length (map (\<lambda>k. if int k \<in> set cs then decoded lr num_c r (int k) (?st1 ?a ! k)
                  else ?st1 ?a ! k) [0..<length (?st1 ?a)])
      = length (map (\<lambda>k. if int k \<in> set (c # cs) then decoded lr num_c r (int k) (st ?a ! k)
                  else st ?a ! k) [0..<length (st ?a)])"
      by simp
  next
    fix k
    assume "k < length (map (\<lambda>k. if int k \<in> set cs then decoded lr num_c r (int k) (?st1 ?a ! k)
                  else ?st1 ?a ! k) [0..<length (?st1 ?a)])"
    then have k: "k < length (st ?a)" by simp
    show "map (\<lambda>k. if int k \<in> set cs then decoded lr num_c r (int k) (?st1 ?a ! k)
                  else ?st1 ?a ! k) [0..<length (?st1 ?a)] ! k
      = map (\<lambda>k. if int k \<in> set (c # cs) then decoded lr num_c r (int k) (st ?a ! k)
                  else st ?a ! k) [0..<length (st ?a)] ! k"
    proof (cases "k = nat c")
      case True
      with c(1) have "int k = c" by simp
      with k nc True show ?thesis by simp
    next
      case False
      with c(1) have "int k \<noteq> c" by auto
      with k False show ?thesis by simp
    qed
  qed
  ultimately have "ouput_cols lr g num_c r cs ?st1 =
      (Inr (), st(?a := map (\<lambda>k. if int k \<in> set (c # cs)
                             then decoded lr num_c r (int k) (st ?a ! k) else st ?a ! k)
                        [0..<length (st ?a)]))"
    by (simp only: fun_upd_upd)
  moreover have "ouput_cols lr g num_c r (c # cs) st = ouput_cols lr g num_c r cs ?st1"
    using r c by (rule ouput_cols_step)
  ultimately show ?case by (simp only:)
qed

text \<open>The inner loop over the first \<open>num_c\<close> columns of a row that has them.\<close>

lemma ouput_cols_row:
  assumes r: "0 \<le> r" "nat r < length g"
    and len: "num_c \<le> int (length (st (g ! nat r)))"
  shows "ouput_cols lr g num_c r (py_range 0 num_c) st =
           (Inr (), st(g ! nat r := decoded_row lr num_c r (st (g ! nat r))))"
proof -
  from len have "\<forall>c \<in> set (py_range 0 num_c).
      0 \<le> c \<and> nat c < length (st (g ! nat r)) \<and> c < num_c"
    by (auto simp: py_range_def)
  moreover have "distinct (py_range 0 num_c)"
    by (simp add: py_range_def)
  ultimately have "ouput_cols lr g num_c r (py_range 0 num_c) st =
           (Inr (), st(g ! nat r :=
              map (\<lambda>k. if int k \<in> set (py_range 0 num_c)
                       then decoded lr num_c r (int k) (st (g ! nat r) ! k)
                       else st (g ! nat r) ! k)
                [0..<length (st (g ! nat r))]))"
    using r by (intro ouput_cols_all)
  moreover
  have "map (\<lambda>k. if int k \<in> set (py_range 0 num_c)
                       then decoded lr num_c r (int k) (st (g ! nat r) ! k)
                       else st (g ! nat r) ! k)
                [0..<length (st (g ! nat r))]
      = decoded_row lr num_c r (st (g ! nat r))"
    unfolding decoded_row_def by (intro map_cong) (auto simp: py_range_def)
  ultimately show ?thesis by (simp only:)
qed

lemma decoded_row_length: "length (decoded_row lr num_c r row) = length row"
  by (simp add: decoded_row_def)


text \<open>The outer loop over a list of distinct rows of a grid whose rows are distinct objects.\<close>

lemma ouput_rows_all:
  assumes dg: "distinct g"
    and rs: "\<forall>r \<in> set rs. 0 \<le> r \<and> nat r < length g"
    and drs: "distinct rs"
    and len: "\<forall>r \<in> set rs. num_c \<le> int (length (st (g ! nat r)))"
  shows "\<exists>st'. ouput_rows lr g num_c rs st = (Inr (), st')
           \<and> (\<forall>r \<in> set rs. st' (g ! nat r) = decoded_row lr num_c r (st (g ! nat r)))
           \<and> (\<forall>b. b \<notin> (\<lambda>r. g ! nat r) ` set rs \<longrightarrow> st' b = st b)"
  using rs drs len
proof (induction rs arbitrary: st)
  case Nil
  show ?case by simp
next
  case (Cons r rs)
  let ?a = "g ! nat r"
  let ?st1 = "st(?a := decoded_row lr num_c r (st ?a))"
  from Cons.prems have r: "0 \<le> r" "nat r < length g" and nr: "r \<notin> set rs"
    and rs: "\<forall>r \<in> set rs. 0 \<le> r \<and> nat r < length g" and drs: "distinct rs"
    by simp_all
  from Cons.prems(3) have la: "num_c \<le> int (length (st ?a))" by simp
  have cols: "ouput_cols lr g num_c r (py_range 0 num_c) st = (Inr (), ?st1)"
    using r la by (rule ouput_cols_row)
  from Cons.prems(3) have len1: "\<forall>r \<in> set rs. num_c \<le> int (length (?st1 (g ! nat r)))"
    by (simp add: decoded_row_length)
  from Cons.IH [OF rs drs len1] obtain st' where
    run: "ouput_rows lr g num_c rs ?st1 = (Inr (), st')"
    and marked: "\<forall>r' \<in> set rs. st' (g ! nat r') = decoded_row lr num_c r' (?st1 (g ! nat r'))"
    and rest: "\<forall>b. b \<notin> (\<lambda>r. g ! nat r) ` set rs \<longrightarrow> st' b = ?st1 b"
    by blast
  have other: "g ! nat r' \<noteq> ?a" if "r' \<in> set rs" for r'
  proof -
    from that rs nr have "0 \<le> r'" "nat r' < length g" "r' \<noteq> r" by auto
    with r have "nat r' \<noteq> nat r" by simp
    with dg \<open>nat r' < length g\<close> r(2) show ?thesis
      by (simp add: nth_eq_iff_index_eq)
  qed
  have "ouput_rows lr g num_c (r # rs) st = (Inr (), st')"
    using cols run by simp
  moreover have "\<forall>r' \<in> set (r # rs). st' (g ! nat r') = decoded_row lr num_c r' (st (g ! nat r'))"
  proof
    fix r' assume "r' \<in> set (r # rs)"
    then consider "r' = r" | "r' \<in> set rs" by auto
    then show "st' (g ! nat r') = decoded_row lr num_c r' (st (g ! nat r'))"
    proof cases
      case 1
      have "?a \<notin> (\<lambda>r. g ! nat r) ` set rs"
      proof
        assume "?a \<in> (\<lambda>r. g ! nat r) ` set rs"
        then obtain r' where "r' \<in> set rs" "?a = g ! nat r'" by auto
        with other [of r'] show False by simp
      qed
      with rest have "st' ?a = ?st1 ?a" by blast
      with 1 show ?thesis by simp
    next
      case 2
      with other have "?st1 (g ! nat r') = st (g ! nat r')" by simp
      with marked 2 show ?thesis by simp
    qed
  qed
  moreover have "\<forall>b. b \<notin> (\<lambda>r. g ! nat r) ` set (r # rs) \<longrightarrow> st' b = st b"
  proof (intro allI impI)
    fix b assume b: "b \<notin> (\<lambda>r. g ! nat r) ` set (r # rs)"
    then have "b \<noteq> ?a" "b \<notin> (\<lambda>r. g ! nat r) ` set rs" by auto
    with rest show "st' b = st b" by simp
  qed
  ultimately show ?case by blast
qed


text \<open>What a successful read or write of a cell says about the lists involved.\<close>

lemma py_offset_Inr: "py_offset len i = Inr k \<Longrightarrow> k < len"
  by (auto simp: py_offset_def split: if_splits)

lemma grid_get_Inr_iff:
  "grid_get st g r c = Inr x \<longleftrightarrow>
     (\<exists>a k. py_index g r = Inr a \<and> py_offset (length (st a)) c = Inr k \<and> x = st a ! k)"
  by (auto simp: grid_get_def py_index_def bind_res_eq_Inr)

lemma grid_set_Inr_iff:
  "grid_set st g r c v = Inr st1 \<longleftrightarrow>
     (\<exists>a k. py_index g r = Inr a \<and> py_offset (length (st a)) c = Inr k
        \<and> st1 = st(a := (st a)[k := v]))"
  by (auto simp: grid_set_def bind_res_eq_Inr)



text \<open>The stores that the writes lead to.\<close>

lemma only_marks_refl: "only_marks st st"
  by (simp add: only_marks_def)

lemma only_marks_length: "only_marks st st' \<Longrightarrow> length (st' a) = length (st a)"
  by (simp add: only_marks_def)

lemma only_marks_nth:
  "only_marks st st' \<Longrightarrow> k < length (st a) \<Longrightarrow>
     st' a ! k = st a ! k \<or> (st a ! k = Unknown \<and> (st' a ! k = Mine \<or> st' a ! k = Safe))"
  by (simp add: only_marks_def)

lemma only_marks_trans:
  assumes "only_marks s t" and "only_marks t u"
  shows "only_marks s u"
  unfolding only_marks_def
proof (intro allI conjI impI)
  fix a
  from assms show "length (u a) = length (s a)"
    by (simp add: only_marks_length)
next
  fix a k assume k: "k < length (s a)"
  with assms(1) have 1: "t a ! k = s a ! k \<or> (s a ! k = Unknown \<and> (t a ! k = Mine \<or> t a ! k = Safe))"
    by (rule only_marks_nth)
  from assms(1) k have "k < length (t a)" by (simp add: only_marks_length)
  with assms(2) have 2: "u a ! k = t a ! k \<or> (t a ! k = Unknown \<and> (u a ! k = Mine \<or> u a ! k = Safe))"
    by (rule only_marks_nth)
  from 1 2 show "u a ! k = s a ! k \<or> (s a ! k = Unknown \<and> (u a ! k = Mine \<or> u a ! k = Safe))"
    by auto
qed

lemma only_marks_get:
  assumes "only_marks st st'" and "grid_get st g r c = Inr old"
  shows "\<exists>new. grid_get st' g r c = Inr new
           \<and> (new = old \<or> (old = Unknown \<and> (new = Mine \<or> new = Safe)))"
proof -
  from assms(2) obtain a k where a: "py_index g r = Inr a"
    and k: "py_offset (length (st a)) c = Inr k" and old: "old = st a ! k"
    by (auto simp: grid_get_Inr_iff)
  from k have "k < length (st a)" by (rule py_offset_Inr)
  with assms(1) have "st' a ! k = st a ! k \<or> (st a ! k = Unknown \<and> (st' a ! k = Mine \<or> st' a ! k = Safe))"
    by (rule only_marks_nth)
  moreover from assms(1) k have "py_offset (length (st' a)) c = Inr k"
    by (simp add: only_marks_length)
  with a have "grid_get st' g r c = Inr (st' a ! k)"
    by (auto simp: grid_get_Inr_iff)
  ultimately show ?thesis using old by auto
qed

lemma only_marks_get_back:
  assumes "only_marks st st'" and "grid_get st' g r c = Inr new"
  shows "\<exists>old. grid_get st g r c = Inr old
           \<and> (new = old \<or> (old = Unknown \<and> (new = Mine \<or> new = Safe)))"
proof -
  from assms(2) obtain a k where a: "py_index g r = Inr a"
    and k': "py_offset (length (st' a)) c = Inr k" and new: "new = st' a ! k"
    by (auto simp: grid_get_Inr_iff)
  from assms(1) k' have k: "py_offset (length (st a)) c = Inr k"
    by (simp add: only_marks_length)
  then have "k < length (st a)" by (rule py_offset_Inr)
  with assms(1) have "st' a ! k = st a ! k \<or> (st a ! k = Unknown \<and> (st' a ! k = Mine \<or> st' a ! k = Safe))"
    by (rule only_marks_nth)
  moreover from a k have "grid_get st g r c = Inr (st a ! k)"
    by (auto simp: grid_get_Inr_iff)
  ultimately show ?thesis using new by auto
qed

lemma grid_set_marks:
  assumes get: "grid_get st g r c = Inr Unknown"
    and set: "grid_set st g r c v = Inr st1"
    and v: "v = Mine \<or> v = Safe"
  shows "only_marks st st1" and "grid_get st1 g r c = Inr v"
proof -
  from set obtain a k where a: "py_index g r = Inr a"
    and k: "py_offset (length (st a)) c = Inr k" and st1: "st1 = st(a := (st a)[k := v])"
    by (auto simp: grid_set_Inr_iff)
  from k have kl: "k < length (st a)" by (rule py_offset_Inr)
  from get a k have u: "st a ! k = Unknown"
    by (auto simp: grid_get_Inr_iff)
  show "only_marks st st1"
    unfolding only_marks_def
  proof (intro allI conjI impI)
    fix b show "length (st1 b) = length (st b)" by (simp add: st1)
  next
    fix b j assume "j < length (st b)"
    with u v show "st1 b ! j = st b ! j
        \<or> (st b ! j = Unknown \<and> (st1 b ! j = Mine \<or> st1 b ! j = Safe))"
      by (cases "b = a"; cases "j = k") (auto simp: st1)
  qed
  from k have "py_offset (length (st1 a)) c = Inr k" by (simp add: st1)
  moreover from kl have "st1 a ! k = v" by (simp add: st1)
  ultimately show "grid_get st1 g r c = Inr v"
    using a by (auto simp: grid_get_Inr_iff)
qed

text \<open>
  However the inner loop ends, it has only marked unknown cells; and when it ends
  without an exception, no cell of the columns it visited is unknown.
\<close>

lemma ouput_cols_marks:
  assumes "ouput_cols lr g num_c r cs st = (res, st')"
  shows "only_marks st st'
       \<and> (res = Inr () \<longrightarrow> (\<forall>c \<in> set cs. \<exists>cell. grid_get st' g r c = Inr cell \<and> cell \<noteq> Unknown))"
  using assms
proof (induction cs arbitrary: st)
  case Nil
  then show ?case by (simp add: ouput_cols.simps only_marks_refl)
next
  case (Cons c cs)
  let ?test = "if r * num_c + c < int (length lr)
               then bind_res (py_index lr (r * num_c + c)) (\<lambda>v. Inr (v > 0))
               else Inr False"
  show ?case
  proof (cases "grid_get st g r c")
    case (Inl e)
    with Cons.prems show ?thesis by (auto simp: ouput_cols.simps only_marks_refl)
  next
    case (Inr cell)
    show ?thesis
    proof (cases "cell = Unknown")
      case False
      with Inr Cons.prems have run: "ouput_cols lr g num_c r cs st = (res, st')"
        by (simp add: ouput_cols.simps)
      from Cons.IH [OF run] have m: "only_marks st st'"
        and v: "res = Inr () \<longrightarrow> (\<forall>c \<in> set cs. \<exists>cell. grid_get st' g r c = Inr cell \<and> cell \<noteq> Unknown)"
        by simp_all
      from only_marks_get [OF m Inr] False
      have "\<exists>cell. grid_get st' g r c = Inr cell \<and> cell \<noteq> Unknown" by auto
      with m v show ?thesis by simp
    next
      case True
      show ?thesis
      proof (cases ?test)
        case (Inl e)
        with True \<open>grid_get st g r c = Inr cell\<close> Cons.prems show ?thesis
          by (auto simp: ouput_cols.simps only_marks_refl Let_def)
      next
        case test: (Inr mine)
        let ?v = "if mine then Mine else Safe"
        show ?thesis
        proof (cases "grid_set st g r c ?v")
          case (Inl e)
          with test True \<open>grid_get st g r c = Inr cell\<close> Cons.prems show ?thesis
            by (auto simp: ouput_cols.simps only_marks_refl Let_def)
        next
          case set: (Inr st1)
          with test True \<open>grid_get st g r c = Inr cell\<close> Cons.prems
          have run: "ouput_cols lr g num_c r cs st1 = (res, st')"
            by (simp add: ouput_cols.simps Let_def)
          from True \<open>grid_get st g r c = Inr cell\<close> have get: "grid_get st g r c = Inr Unknown"
            by simp
          have vv: "?v = Mine \<or> ?v = Safe" by simp
          from grid_set_marks [OF get set vv]
          have m1: "only_marks st st1" and g1: "grid_get st1 g r c = Inr ?v" .
          from Cons.IH [OF run] have m: "only_marks st1 st'"
            and v: "res = Inr () \<longrightarrow> (\<forall>c \<in> set cs. \<exists>cell. grid_get st' g r c = Inr cell \<and> cell \<noteq> Unknown)"
            by simp_all
          from only_marks_get [OF m g1]
          have "\<exists>cell. grid_get st' g r c = Inr cell \<and> cell \<noteq> Unknown" by auto
          moreover from m1 m have "only_marks st st'" by (rule only_marks_trans)
          ultimately show ?thesis using v by simp
        qed
      qed
    qed
  qed
qed

text \<open>The same for the outer loop.\<close>

lemma ouput_rows_marks:
  assumes "ouput_rows lr g num_c rs st = (res, st')"
  shows "only_marks st st'
       \<and> (res = Inr () \<longrightarrow>
            (\<forall>r \<in> set rs. \<forall>c \<in> set (py_range 0 num_c).
               \<exists>cell. grid_get st' g r c = Inr cell \<and> cell \<noteq> Unknown))"
  using assms
proof (induction rs arbitrary: st)
  case Nil
  then show ?case by (simp add: only_marks_refl)
next
  case (Cons r rs)
  obtain res1 st1 where cols: "ouput_cols lr g num_c r (py_range 0 num_c) st = (res1, st1)"
    by (cases "ouput_cols lr g num_c r (py_range 0 num_c) st")
  from ouput_cols_marks [OF cols] have m1: "only_marks st st1"
    and v1: "res1 = Inr () \<longrightarrow>
      (\<forall>c \<in> set (py_range 0 num_c). \<exists>cell. grid_get st1 g r c = Inr cell \<and> cell \<noteq> Unknown)"
    by simp_all
  show ?case
  proof (cases res1)
    case (Inl e)
    with cols Cons.prems m1 show ?thesis by auto
  next
    case (Inr u)
    with cols Cons.prems have run: "ouput_rows lr g num_c rs st1 = (res, st')"
      by simp
    from Cons.IH [OF run] have m: "only_marks st1 st'"
      and v: "res = Inr () \<longrightarrow>
            (\<forall>r \<in> set rs. \<forall>c \<in> set (py_range 0 num_c).
               \<exists>cell. grid_get st' g r c = Inr cell \<and> cell \<noteq> Unknown)"
      by simp_all
    have "\<exists>cell. grid_get st' g r c = Inr cell \<and> cell \<noteq> Unknown"
      if "c \<in> set (py_range 0 num_c)" for c
    proof -
      from v1 Inr that obtain cell where "grid_get st1 g r c = Inr cell" "cell \<noteq> Unknown"
        by auto
      with only_marks_get [OF m] show ?thesis by blast
    qed
    moreover from m1 m have "only_marks st st'" by (rule only_marks_trans)
    ultimately show ?thesis using v by simp
  qed
qed

text \<open>The decoder as a whole.\<close>

lemma ouput_for_pysat_Inr:
  "ouput_for_pysat lr g (rows, cols) st = (Inr out, st') \<longleftrightarrow>
     out = g \<and> ouput_rows lr g cols (py_range 0 rows) st = (Inr (), st')"
  by (auto simp: Let_def split: prod.splits sum.splits)

lemma ouput_for_pysat_returns:
  assumes "grid_of_size st g (rows, cols)"
  shows "\<exists>st'. ouput_for_pysat lr g (rows, cols) st = (Inr g, st')"
proof -
  from assms have dg: "distinct g" and rows: "int (length g) = rows"
    and len: "\<forall>a \<in> set g. int (length (st a)) = cols"
    by (simp_all add: list_all_iff)
  from rows have rs: "\<forall>r \<in> set (py_range 0 rows). 0 \<le> r \<and> nat r < length g"
    by (auto simp: py_range_def)
  have drs: "distinct (py_range 0 rows)" by (simp add: py_range_def)
  have "\<forall>r \<in> set (py_range 0 rows). cols \<le> int (length (st (g ! nat r)))"
  proof
    fix r assume "r \<in> set (py_range 0 rows)"
    with rs have "g ! nat r \<in> set g" by simp
    with len show "cols \<le> int (length (st (g ! nat r)))" by simp
  qed
  with dg rs drs obtain st' where "ouput_rows lr g cols (py_range 0 rows) st = (Inr (), st')"
    using ouput_rows_all [of g "py_range 0 rows" cols st lr] by blast
  then show ?thesis
    by (auto simp: ouput_for_pysat_Inr simp del: ouput_for_pysat.simps)
qed





text \<open>
  C8. Whenever \<open>ouput_for_pysat\<close> returns, on any grid and size, the grid it returns has
  the dimensions of the grid it was given; every cell at a position of the size that was
  not the unknown marker holds the value it held, and every one that was the unknown
  marker holds \<open>'T'\<close> or \<open>'G'\<close>; and at every position at all, the cell either holds the
  value it held, or was the unknown marker and holds \<open>'T'\<close> or \<open>'G'\<close>. It does return when
  the grid has the dimensions of the size and its rows are distinct objects.
\<close>

theorem ouput_for_pysat_frame:
  "(grid_of_size st g (rows, cols) \<longrightarrow>
      (\<exists>out st'. ouput_for_pysat list_result g (rows, cols) st = (Inr out, st')))
   \<and> (\<forall>out st'. ouput_for_pysat list_result g (rows, cols) st = (Inr out, st') \<longrightarrow>
        length out = length g
      \<and> (\<forall>i < length g. length (st' (out ! i)) = length (st (g ! i)))
      \<and> (\<forall>r c. 0 \<le> r \<and> r < rows \<and> 0 \<le> c \<and> c < cols \<longrightarrow>
            (\<exists>old new. grid_get st g r c = Inr old \<and> grid_get st' out r c = Inr new
               \<and> (if old = Unknown then new = Mine \<or> new = Safe else new = old)))
      \<and> (\<forall>r c old. grid_get st g r c = Inr old \<longrightarrow>
            (\<exists>new. grid_get st' out r c = Inr new
               \<and> (new = old \<or> (old = Unknown \<and> (new = Mine \<or> new = Safe))))))"
proof (intro conjI impI allI)
  assume "grid_of_size st g (rows, cols)"
  then show "\<exists>out st'. ouput_for_pysat list_result g (rows, cols) st = (Inr out, st')"
    using ouput_for_pysat_returns by blast
next
  fix out st'
  assume ret: "ouput_for_pysat list_result g (rows, cols) st = (Inr out, st')"
  then have out: "out = g"
    and run: "ouput_rows list_result g cols (py_range 0 rows) st = (Inr (), st')"
    by (simp_all only: ouput_for_pysat_Inr)
  from ouput_rows_marks [OF run] have m: "only_marks st st'"
    and v: "\<forall>r \<in> set (py_range 0 rows). \<forall>c \<in> set (py_range 0 cols).
               \<exists>cell. grid_get st' g r c = Inr cell \<and> cell \<noteq> Unknown"
    by simp_all
  from out show "length out = length g" by simp
  show "length (st' (out ! i)) = length (st (g ! i))" for i
    using m by (simp add: out only_marks_length)
  show "\<exists>old new. grid_get st g r c = Inr old \<and> grid_get st' out r c = Inr new
               \<and> (if old = Unknown then new = Mine \<or> new = Safe else new = old)"
    if b: "0 \<le> r \<and> r < rows \<and> 0 \<le> c \<and> c < cols" for r c
  proof -
    from b have "r \<in> set (py_range 0 rows)" "c \<in> set (py_range 0 cols)"
      by (simp_all add: py_range_def)
    with v obtain new where new: "grid_get st' g r c = Inr new" "new \<noteq> Unknown"
      by blast
    from only_marks_get_back [OF m new(1)] obtain old where
      "grid_get st g r c = Inr old"
      "new = old \<or> (old = Unknown \<and> (new = Mine \<or> new = Safe))"
      by blast
    with new show ?thesis unfolding out by auto
  qed
  show "\<exists>new. grid_get st' out r c = Inr new
               \<and> (new = old \<or> (old = Unknown \<and> (new = Mine \<or> new = Safe)))"
    if "grid_get st g r c = Inr old" for r c old
    using only_marks_get [OF m that] by (simp only: out)
qed

theorem ouput_for_pysat_frame_witness:
  "grid_of_size grid_a [0, 1] (2, 2)
   \<and> grid_get grid_a [0, 1] 0 0 = Inr (Hint 1)
   \<and> grid_get grid_a [0, 1] 0 1 = Inr Unknown
   \<and> (\<exists>out st'. ouput_for_pysat [- 1, 2] [0, 1] (2, 2) grid_a = (Inr out, st')
         \<and> length out = length [0, 1 :: nat]
         \<and> grid_get st' out 0 0 = Inr (Hint 1)
         \<and> (grid_get st' out 0 1 = Inr Mine \<or> grid_get st' out 0 1 = Inr Safe))"
proof -
  have wf: "grid_of_size grid_a [0, 1] (2, 2)"
    by (simp add: grid_a_def)
  note frame_a = ouput_for_pysat_frame [of grid_a "[0, 1]" 2 2 "[- 1, 2]"]
  from frame_a wf obtain out st' where
    run: "ouput_for_pysat [- 1, 2] [0, 1] (2, 2) grid_a = (Inr out, st')"
    by blast
  with frame_a have dims: "length out = length [0, 1 :: nat]"
    and frame: "\<forall>r c. 0 \<le> r \<and> r < 2 \<and> 0 \<le> c \<and> c < 2 \<longrightarrow>
                 (\<exists>old new. grid_get grid_a [0, 1] r c = Inr old \<and> grid_get st' out r c = Inr new
                    \<and> (if old = Unknown then new = Mine \<or> new = Safe else new = old))"
    by blast+
  have "0 \<le> (0::int) \<and> (0::int) < 2 \<and> 0 \<le> (0::int) \<and> (0::int) < 2" by simp
  with frame obtain old new where was: "grid_get grid_a [0, 1] 0 0 = Inr old"
    and now: "grid_get st' out 0 0 = Inr new"
    and rel: "if old = Unknown then new = Mine \<or> new = Safe else new = old"
    by blast
  from was grid_a_get(1) have "old = Hint 1" by (simp only: sum.inject)
  with now rel have kept: "grid_get st' out 0 0 = Inr (Hint 1)" by simp
  have "0 \<le> (0::int) \<and> (0::int) < 2 \<and> 0 \<le> (1::int) \<and> (1::int) < 2" by simp
  with frame obtain old' new' where was': "grid_get grid_a [0, 1] 0 1 = Inr old'"
    and now': "grid_get st' out 0 1 = Inr new'"
    and rel': "if old' = Unknown then new' = Mine \<or> new' = Safe else new' = old'"
    by blast
  from was' grid_a_get(2) have "old' = Unknown" by (simp only: sum.inject)
  with now' rel' have "grid_get st' out 0 1 = Inr Mine \<or> grid_get st' out 0 1 = Inr Safe"
    by simp
  with run dims kept have "\<exists>out st'. ouput_for_pysat [- 1, 2] [0, 1] (2, 2) grid_a = (Inr out, st')
         \<and> length out = length [0, 1 :: nat]
         \<and> grid_get st' out 0 0 = Inr (Hint 1)
         \<and> (grid_get st' out 0 1 = Inr Mine \<or> grid_get st' out 0 1 = Inr Safe)"
    by blast
  with wf grid_a_get(1) grid_a_get(2) show ?thesis by (simp only: simp_thms)
qed

text \<open>
  C9. The list that \<open>ouput_for_pysat\<close> writes to is a shallow copy of the grid: it holds
  the row objects of the grid itself. On the 1 x 1 grid \<open>[['_']]\<close> and the assignment
  \<open>[1]\<close>, the grid that was passed in reads \<open>[['T']]\<close> after the call.
\<close>

theorem ouput_for_pysat_writes_input:
  "cells grid_c [0] = [[Unknown]]
   \<and> fst (ouput_for_pysat [1] [0] (1, 1) grid_c) = Inr [0]
   \<and> cells (snd (ouput_for_pysat [1] [0] (1, 1) grid_c)) [0] = [[Mine]]"
  by code_simp

end
